theory Spec2Isabelle
  imports Complex_Main "HOL-Library.Multiset" "HOL-Library.Word"
begin

section \<open>Chunk reassembly and transcript dispatch (hooks/useAgoraVideoClient.ts)\<close>

subsection \<open>Values\<close>

text \<open>
  The bytes of a stream message become a JavaScript string by
  \<^verbatim>\<open>String.fromCharCode(...new Uint8Array(data))\<close>: one code unit in 0..255 for each
  byte.  Such strings are \<^typ>\<open>string\<close> here.  The text that comes out of the UTF-8
  decoder and of \<^verbatim>\<open>JSON.parse\<close> is a string of UTF-16 code units, written as a list of
  natural numbers.  A JavaScript number that holds an integer is an \<^typ>\<open>int\<close>, and
  \<^verbatim>\<open>NaN\<close> is \<^term>\<open>None\<close>; the model is exact as long as the integers stay
  within the range a double represents exactly.  (An engine refuses to spread more
  bytes than a call can take arguments; that \<^verbatim>\<open>RangeError\<close> is thrown first in the
  \<^verbatim>\<open>try\<close> block of the handler, before any write, and caught by its
  \<^verbatim>\<open>catch\<close>.  The model starts from the string.)
\<close>

type_synonym jsstring = "nat list"

definition js :: "string \<Rightarrow> jsstring" where
  "js s = map of_char s"

datatype error = InvalidCharacterError | SyntaxError | TypeError

datatype json =
    JNull
  | JBool bool
  | JNumber real
  | JString jsstring
  | JArray "json list"
  | JObject "(jsstring \<times> json) list"

text \<open>\<^verbatim>\<open>interface TextDataChunk\<close>.  After destructuring a split with fewer than four
  fields, \<^verbatim>\<open>content\<close> is \<^verbatim>\<open>undefined\<close> (\<^term>\<open>None\<close>).\<close>

record TextDataChunk =
  message_id :: string
  part_index :: "int option"
  total_parts :: "int option"
  content :: "string option"

text \<open>\<^verbatim>\<open>interface IMessageListItem\<close>.\<close>

record IMessageListItem =
  turn_id :: nat
  uid :: nat
  text' :: jsstring
  status :: nat
  timestamp :: "json option"

text \<open>
  The state the two callbacks share: \<^verbatim>\<open>messageCacheRef\<close>, \<^verbatim>\<open>turnIdCounterRef\<close>,
  the React states \<^verbatim>\<open>messageList\<close> and \<^verbatim>\<open>currentInProgressMessage\<close>, and the pending
  \<^verbatim>\<open>setTimeout\<close> callbacks.  A pending callback is the time left until it runs,
  together with the \<^verbatim>\<open>message_id\<close> and \<^verbatim>\<open>total_parts\<close> its closure captured.
\<close>

type_synonym timeout = "nat \<times> string \<times> int option"

record hook_state =
  messageCache :: "string \<rightharpoonup> TextDataChunk list"
  timeouts :: "timeout list"
  turnIdCounter :: nat
  messageList :: "IMessageListItem list"
  currentInProgressMessage :: "IMessageListItem option"

definition initial_state :: hook_state where
  "initial_state = \<lparr>messageCache = Map.empty, timeouts = [], turnIdCounter = 0,
     messageList = [], currentInProgressMessage = None\<rparr>"

subsection \<open>\<^verbatim>\<open>base64ToUtf8\<close>\<close>

text \<open>
  \<^verbatim>\<open>atob\<close> is the forgiving base64 decoder of the HTML standard: ASCII whitespace is
  removed; when the length is then a multiple of four, one or two trailing \<^verbatim>\<open>=\<close> are
  removed; a length of 1 modulo 4, or any character outside the base64 alphabet,
  raises \<^verbatim>\<open>InvalidCharacterError\<close>; otherwise every character contributes six bits.
\<close>

definition isAsciiWhitespace :: "char \<Rightarrow> bool" where
  "isAsciiWhitespace c = (c \<in> set [CHR 0x09, CHR 0x0A, CHR 0x0C, CHR 0x0D, CHR 0x20])"

definition base64_value :: "char \<Rightarrow> nat option" where
  "base64_value c =
     (let n = (of_char c :: nat) in
      if 65 \<le> n \<and> n \<le> 90 then Some (n - 65)
      else if 97 \<le> n \<and> n \<le> 122 then Some (n - 71)
      else if 48 \<le> n \<and> n \<le> 57 then Some (n + 4)
      else if n = 43 then Some 62
      else if n = 47 then Some 63
      else None)"

definition strip_padding :: "string \<Rightarrow> string" where
  "strip_padding s =
     (if length s mod 4 = 0 then
        (if 2 \<le> length s \<and> drop (length s - 2) s = ''=='' then take (length s - 2) s
         else if 1 \<le> length s \<and> drop (length s - 1) s = ''='' then take (length s - 1) s
         else s)
      else s)"

fun sextets_to_bytes :: "nat list \<Rightarrow> nat list" where
  "sextets_to_bytes (a # b # c # d # rest) =
     (let n = ((a * 64 + b) * 64 + c) * 64 + d
      in (n div 65536) # (n div 256 mod 256) # (n mod 256) # sextets_to_bytes rest)"
| "sextets_to_bytes [a, b, c] =
     (let n = ((a * 64 + b) * 64 + c) div 4 in [n div 256, n mod 256])"
| "sextets_to_bytes [a, b] = [(a * 64 + b) div 16]"
| "sextets_to_bytes _ = []"

definition atob :: "string \<Rightarrow> error + string" where
  "atob data =
     (let s = strip_padding (filter (\<lambda>c. \<not> isAsciiWhitespace c) data) in
      if length s mod 4 = 1 then Inl InvalidCharacterError
      else (case those (map base64_value s) of
              None \<Rightarrow> Inl InvalidCharacterError
            | Some sextets \<Rightarrow> Inr (map char_of (sextets_to_bytes sextets))))"

text \<open>
  \<^verbatim>\<open>new TextDecoder("utf-8").decode(bytes)\<close> is a function of the platform, and never
  throws (it is not in fatal mode).  It is the parameter \<open>decode\<close>.  The loop of
  \<^verbatim>\<open>base64ToUtf8\<close> copies the code units of the binary string into the byte array one
  by one.
\<close>

definition base64ToUtf8 :: "(string \<Rightarrow> jsstring) \<Rightarrow> string \<Rightarrow> error + jsstring" where
  "base64ToUtf8 decode base64 =
     (case atob base64 of
        Inl e \<Rightarrow> Inl e
      | Inr binaryString \<Rightarrow> Inr (decode binaryString))"

subsection \<open>\<^verbatim>\<open>handleTenMessage\<close>\<close>

text \<open>
  The value that \<^verbatim>\<open>JSON.parse\<close> returns is not checked against \<^verbatim>\<open>TenMessage\<close>.
  Reading a property of \<^verbatim>\<open>null\<close> throws; reading \<^verbatim>\<open>role\<close>, \<^verbatim>\<open>text\<close>,
  \<^verbatim>\<open>is_final\<close> or \<^verbatim>\<open>text_ts\<close> of an object gives its own property or
  \<^verbatim>\<open>undefined\<close> (\<^term>\<open>None\<close>), and of any other value \<^verbatim>\<open>undefined\<close>.
  The list of a \<^term>\<open>JObject\<close> holds each own property once.
\<close>

fun field :: "json \<Rightarrow> jsstring \<Rightarrow> json option" where
  "field (JObject fs) k = map_of fs k"
| "field _ k = None"

fun truthy :: "json option \<Rightarrow> bool" where
  "truthy None = False"
| "truthy (Some JNull) = False"
| "truthy (Some (JBool b)) = b"
| "truthy (Some (JNumber x)) = (x \<noteq> 0)"
| "truthy (Some (JString s)) = (s \<noteq> [])"
| "truthy (Some (JArray xs)) = True"
| "truthy (Some (JObject fs)) = True"

text \<open>\<^verbatim>\<open>String.prototype.trim\<close> removes the white space and line terminator code
  points of ECMAScript from both ends.\<close>

definition isWhiteSpace :: "nat \<Rightarrow> bool" where
  "isWhiteSpace c =
     (c \<in> set [0x09, 0x0A, 0x0B, 0x0C, 0x0D, 0x20, 0xA0, 0x1680, 0x2000, 0x2001, 0x2002,
        0x2003, 0x2004, 0x2005, 0x2006, 0x2007, 0x2008, 0x2009, 0x200A, 0x2028, 0x2029,
        0x202F, 0x205F, 0x3000, 0xFEFF])"

definition trim :: "jsstring \<Rightarrow> jsstring" where
  "trim s = rev (dropWhile isWhiteSpace (rev (dropWhile isWhiteSpace s)))"

definition handleTenMessage :: "json \<Rightarrow> hook_state \<Rightarrow> error + hook_state" where
  "handleTenMessage parsedMsg st =
     (case parsedMsg of
        JNull \<Rightarrow> Inl TypeError
      | _ \<Rightarrow>
         (let isAgent = (field parsedMsg (js ''role'') = Some (JString (js ''assistant'')));
              uid = (if isAgent then 0 else 1)
          in if \<not> truthy (field parsedMsg (js ''text'')) then Inr st
             else
               (case field parsedMsg (js ''text'') of
                  Some (JString txt) \<Rightarrow>
                    if length (trim txt) = 0 then Inr st
                    else
                      (let newMessage = \<lparr>turn_id = turnIdCounter st, uid = uid, text' = txt,
                             status = (if truthy (field parsedMsg (js ''is_final'')) then 1 else 0),
                             timestamp = field parsedMsg (js ''text_ts'')\<rparr>;
                           st1 = st\<lparr>turnIdCounter := turnIdCounter st + 1\<rparr>
                       in if truthy (field parsedMsg (js ''is_final''))
                          then Inr (st1\<lparr>messageList := messageList st1 @ [newMessage],
                                         currentInProgressMessage := None\<rparr>)
                          else Inr (st1\<lparr>currentInProgressMessage := Some newMessage\<rparr>))
                | _ \<Rightarrow> Inl TypeError)))"

subsection \<open>Parsing a chunk\<close>

text \<open>\<^verbatim>\<open>ascii.split("|")\<close>: the pieces between the separators, at least one.\<close>

fun split_on :: "char \<Rightarrow> string \<Rightarrow> string list" where
  "split_on d [] = [[]]"
| "split_on d (c # cs) =
     (if c = d then [] # split_on d cs
      else (case split_on d cs of
              [] \<Rightarrow> [[c]]
            | f # fs \<Rightarrow> (c # f) # fs))"

text \<open>Array destructuring: the element at an index, or \<^verbatim>\<open>undefined\<close>.\<close>

definition element :: "'a list \<Rightarrow> nat \<Rightarrow> 'a option" where
  "element xs i = (if i < length xs then Some (xs ! i) else None)"

text \<open>
  \<^verbatim>\<open>parseInt(s, 10)\<close>: leading white space is skipped, one sign is read, then the
  longest run of decimal digits; without a digit the result is \<^verbatim>\<open>NaN\<close>.  The
  argument \<^verbatim>\<open>undefined\<close> is first converted to the string "undefined", which has
  no digit.
\<close>

definition isStrWhiteSpaceChar :: "char \<Rightarrow> bool" where
  "isStrWhiteSpaceChar c =
     (c \<in> set [CHR 0x09, CHR 0x0A, CHR 0x0B, CHR 0x0C, CHR 0x0D, CHR 0x20, CHR 0xA0])"

definition isDigit :: "char \<Rightarrow> bool" where
  "isDigit c = (48 \<le> (of_char c :: nat) \<and> (of_char c :: nat) \<le> 57)"

fun digitsValue :: "int \<Rightarrow> string \<Rightarrow> int" where
  "digitsValue acc [] = acc"
| "digitsValue acc (c # cs) = digitsValue (acc * 10 + (of_char c - 48)) cs"

definition parseInt :: "string option \<Rightarrow> int option" where
  "parseInt inputString =
     (case inputString of
        None \<Rightarrow> None
      | Some str \<Rightarrow>
         (let S = dropWhile isStrWhiteSpaceChar str;
              sign = (if S \<noteq> [] \<and> hd S = CHR ''-'' then - 1 else 1);
              S' = (if S \<noteq> [] \<and> (hd S = CHR ''+'' \<or> hd S = CHR ''-'') then tl S else S);
              Z = takeWhile isDigit S'
          in if Z = [] then None else Some (sign * digitsValue 0 Z)))"

subsection \<open>Sorting the collected chunks\<close>

text \<open>
  \<^verbatim>\<open>chunks.sort((a, b) => a.part_index - b.part_index)\<close>.  The comparator yields
  \<^verbatim>\<open>NaN\<close> when an index is \<^verbatim>\<open>NaN\<close>, which the sort reads as equal.  The
  sort is stable; it is modelled as insertion from left to right, each element going
  in front of the first element it is less than.  (With a \<^verbatim>\<open>NaN\<close> among several
  indices the comparator is not consistent and ECMAScript leaves the order to the
  implementation; the model is then one of the possible outcomes.)
\<close>

definition compareFn :: "TextDataChunk \<Rightarrow> TextDataChunk \<Rightarrow> int option" where
  "compareFn a b =
     (case (part_index a, part_index b) of
        (Some i, Some j) \<Rightarrow> Some (i - j)
      | _ \<Rightarrow> None)"

definition comesBefore :: "TextDataChunk \<Rightarrow> TextDataChunk \<Rightarrow> bool" where
  "comesBefore a b = (case compareFn a b of Some v \<Rightarrow> v < 0 | None \<Rightarrow> False)"

fun insertChunk :: "TextDataChunk \<Rightarrow> TextDataChunk list \<Rightarrow> TextDataChunk list" where
  "insertChunk x [] = [x]"
| "insertChunk x (y # ys) = (if comesBefore x y then x # y # ys else y # insertChunk x ys)"

definition sortChunks :: "TextDataChunk list \<Rightarrow> TextDataChunk list" where
  "sortChunks chunks = foldl (\<lambda>sorted c. insertChunk c sorted) [] chunks"

text \<open>\<^verbatim>\<open>chunks.map(c => c.content).join("")\<close>; \<^verbatim>\<open>join\<close> writes
  \<^verbatim>\<open>undefined\<close> as the empty string.\<close>

definition joinContents :: "TextDataChunk list \<Rightarrow> string" where
  "joinContents chunks = concat (map (\<lambda>c. case content c of None \<Rightarrow> [] | Some s \<Rightarrow> s) chunks)"

subsection \<open>\<^verbatim>\<open>handleStreamMessage\<close>\<close>

text \<open>
  \<^verbatim>\<open>messageCacheRef.current\<close> is an object literal, so reading a key that is not
  an own property finds the properties inherited from \<^verbatim>\<open>Object.prototype\<close>.  For
  these names \<^verbatim>\<open>!messageCacheRef.current[message_id]\<close> is false although no chunk
  was stored, and the value found has no \<^verbatim>\<open>push\<close> method.
\<close>

definition Object_prototype_keys :: "string list" where
  "Object_prototype_keys =
     [''constructor'', ''__defineGetter__'', ''__defineSetter__'', ''hasOwnProperty'',
      ''__lookupGetter__'', ''__lookupSetter__'', ''isPrototypeOf'', ''propertyIsEnumerable'',
      ''toString'', ''valueOf'', ''__proto__'', ''toLocaleString'']"

text \<open>
  The inner \<^verbatim>\<open>try\<close> block: decode, parse, dispatch.  \<open>parse\<close> stands for
  \<^verbatim>\<open>JSON.parse\<close>, with \<^term>\<open>None\<close> for a \<^verbatim>\<open>SyntaxError\<close>.
\<close>

definition decodeAndDispatch ::
  "(string \<Rightarrow> jsstring) \<Rightarrow> (jsstring \<Rightarrow> json option) \<Rightarrow> string \<Rightarrow> hook_state \<Rightarrow> error + hook_state" where
  "decodeAndDispatch decode parse completeBase64 st =
     (case base64ToUtf8 decode completeBase64 of
        Inl e \<Rightarrow> Inl e
      | Inr jsonStr \<Rightarrow>
         (case parse jsonStr of
            None \<Rightarrow> Inl SyntaxError
          | Some parsedMsg \<Rightarrow> handleTenMessage parsedMsg st))"

text \<open>The inner \<^verbatim>\<open>try\<close> with its \<^verbatim>\<open>catch\<close>, which logs the error and goes
  on.  Every throw of the block comes before its first write, so the state is then
  the one before the block.\<close>

definition tryDecodeAndDispatch ::
  "(string \<Rightarrow> jsstring) \<Rightarrow> (jsstring \<Rightarrow> json option) \<Rightarrow> string \<Rightarrow> hook_state \<Rightarrow> hook_state" where
  "tryDecodeAndDispatch decode parse completeBase64 st =
     (case decodeAndDispatch decode parse completeBase64 st of
        Inl e \<Rightarrow> st
      | Inr st' \<Rightarrow> st')"

text \<open>From \<^verbatim>\<open>push\<close> to the end of the outer \<^verbatim>\<open>try\<close> block, for a key that
  holds the array \<open>stored\<close>.\<close>

definition pushAndReconstruct ::
  "(string \<Rightarrow> jsstring) \<Rightarrow> (jsstring \<Rightarrow> json option) \<Rightarrow> TextDataChunk \<Rightarrow> TextDataChunk list
     \<Rightarrow> hook_state \<Rightarrow> hook_state" where
  "pushAndReconstruct decode parse chunk stored st =
     (let chunks = stored @ [chunk];
          st1 = st\<lparr>messageCache := (messageCache st)(message_id chunk \<mapsto> chunks)\<rparr>
      in if Some (int (length chunks)) = total_parts chunk then
           (let sorted = sortChunks chunks;
                completeBase64 = joinContents sorted;
                st2 = st1\<lparr>messageCache := (messageCache st1)(message_id chunk \<mapsto> sorted)\<rparr>;
                st3 = tryDecodeAndDispatch decode parse completeBase64 st2
            in st3\<lparr>messageCache := (messageCache st3)(message_id chunk := None)\<rparr>)
         else st1)"

text \<open>The chunk that the handler builds from the text of a stream message:
  the first four fields of the split, the two numbers read by \<^verbatim>\<open>parseInt\<close>, and
  \<^verbatim>\<open>-1\<close> as the number of parts when that field is \<^verbatim>\<open>???\<close>.\<close>

definition parseChunk :: "string \<Rightarrow> TextDataChunk" where
  "parseChunk ascii =
     (let fields = split_on CHR ''|'' ascii;
          partIndexStr = element fields 1;
          totalPartsStr = element fields 2
      in \<lparr>message_id = (case fields of [] \<Rightarrow> [] | f # _ \<Rightarrow> f),
          part_index = parseInt partIndexStr,
          total_parts = (if totalPartsStr = Some ''???'' then Some (- 1) else parseInt totalPartsStr),
          content = element fields 3\<rparr>)"

text \<open>The outer \<^verbatim>\<open>try\<close> block; \<^term>\<open>Inl\<close> is an exception thrown out of it.  The
  one throw, calling the missing \<^verbatim>\<open>push\<close>, comes before any write.\<close>

definition handleStreamMessage_try ::
  "(string \<Rightarrow> jsstring) \<Rightarrow> (jsstring \<Rightarrow> json option) \<Rightarrow> string \<Rightarrow> hook_state \<Rightarrow> error + hook_state" where
  "handleStreamMessage_try decode parse ascii st =
     (let chunk = parseChunk ascii
      in if total_parts chunk = Some (- 1) then Inr st
         else
           (case messageCache st (message_id chunk) of
              Some stored \<Rightarrow> Inr (pushAndReconstruct decode parse chunk stored st)
            | None \<Rightarrow>
                if message_id chunk \<in> set Object_prototype_keys then Inl TypeError
                else Inr (pushAndReconstruct decode parse chunk []
                       (st\<lparr>messageCache := (messageCache st)(message_id chunk \<mapsto> []),
                           timeouts := timeouts st @ [(5000, message_id chunk, total_parts chunk)]\<rparr>))))"

text \<open>The handler: the outer \<^verbatim>\<open>catch\<close> logs whatever was thrown and returns.
  \<^term>\<open>Inl\<close> would be an exception that reaches the caller.\<close>

definition handleStreamMessage ::
  "(string \<Rightarrow> jsstring) \<Rightarrow> (jsstring \<Rightarrow> json option) \<Rightarrow> string \<Rightarrow> hook_state \<Rightarrow> error + hook_state" where
  "handleStreamMessage decode parse data st =
     (case handleStreamMessage_try decode parse data st of
        Inl e \<Rightarrow> Inr st
      | Inr st' \<Rightarrow> Inr st')"

text \<open>Stream messages handled one after the other, no timer running in between.\<close>

fun ingest ::
  "(string \<Rightarrow> jsstring) \<Rightarrow> (jsstring \<Rightarrow> json option) \<Rightarrow> string list \<Rightarrow> hook_state \<Rightarrow> error + hook_state" where
  "ingest decode parse [] st = Inr st"
| "ingest decode parse (d # ds) st =
     (case handleStreamMessage decode parse d st of
        Inl e \<Rightarrow> Inl e
      | Inr st' \<Rightarrow> ingest decode parse ds st')"

subsection \<open>The eviction timer\<close>

text \<open>The callback given to \<^verbatim>\<open>setTimeout\<close>:
  \<^verbatim>\<open>if (messageCacheRef.current[message_id]?.length !== total_parts) delete ...\<close>.\<close>

definition timeoutCallback :: "string \<Rightarrow> int option \<Rightarrow> hook_state \<Rightarrow> hook_state" where
  "timeoutCallback mid n st =
     (if (case messageCache st mid of
            None \<Rightarrow> True
          | Some chunks \<Rightarrow> Some (int (length chunks)) \<noteq> n)
      then st\<lparr>messageCache := (messageCache st)(mid := None)\<rparr>
      else st)"

text \<open>Time passing: after \<open>d\<close> milliseconds the callbacks whose delay is over have
  run, in the order they were scheduled, and the others have \<open>d\<close> less to wait.\<close>

definition isDue :: "nat \<Rightarrow> timeout \<Rightarrow> bool" where
  "isDue d t = (fst t \<le> d)"

definition elapse :: "nat \<Rightarrow> hook_state \<Rightarrow> hook_state" where
  "elapse d st =
     foldl (\<lambda>s t. timeoutCallback (fst (snd t)) (snd (snd t)) s)
       (st\<lparr>timeouts := map (\<lambda>t. (fst t - d, snd t)) (filter (\<lambda>t. \<not> isDue d t) (timeouts st))\<rparr>)
       (filter (isDue d) (timeouts st))"

text \<open>What happens to the hook: a stream message arrives, or time passes.\<close>

datatype event = StreamMessage string | Elapse nat

fun run ::
  "(string \<Rightarrow> jsstring) \<Rightarrow> (jsstring \<Rightarrow> json option) \<Rightarrow> event list \<Rightarrow> hook_state \<Rightarrow> error + hook_state" where
  "run decode parse [] st = Inr st"
| "run decode parse (StreamMessage d # evs) st =
     (case handleStreamMessage decode parse d st of
        Inl e \<Rightarrow> Inl e
      | Inr st' \<Rightarrow> run decode parse evs st')"
| "run decode parse (Elapse d # evs) st = run decode parse evs (elapse d st)"

text \<open>The milliseconds that pass during a list of events.\<close>

fun waited :: "event list \<Rightarrow> nat" where
  "waited [] = 0"
| "waited (StreamMessage d # evs) = waited evs"
| "waited (Elapse d # evs) = d + waited evs"

text \<open>Records dispatched one after the other, each as the handler calls
  \<^verbatim>\<open>handleTenMessage\<close>: inside a \<^verbatim>\<open>try\<close> whose \<^verbatim>\<open>catch\<close> only logs.\<close>

definition dispatch :: "json \<Rightarrow> hook_state \<Rightarrow> hook_state" where
  "dispatch parsedMsg st = (case handleTenMessage parsedMsg st of Inl e \<Rightarrow> st | Inr st' \<Rightarrow> st')"

definition dispatchAll :: "json list \<Rightarrow> hook_state \<Rightarrow> hook_state" where
  "dispatchAll msgs st = foldl (\<lambda>s m. dispatch m s) st msgs"

text \<open>Two facts about every state the hook reaches: no stored turn id has reached the
  counter, and no key of the cache is a name inherited from \<^verbatim>\<open>Object.prototype\<close>.\<close>

definition turn_ids_below :: "hook_state \<Rightarrow> bool" where
  "turn_ids_below st =
     ((\<forall>m \<in> set (messageList st). turn_id m < turnIdCounter st) \<and>
      (\<forall>p. currentInProgressMessage st = Some p \<longrightarrow> turn_id p < turnIdCounter st))"

definition own_keys_only :: "hook_state \<Rightarrow> bool" where
  "own_keys_only st = (\<forall>k \<in> set Object_prototype_keys. messageCache st k = None)"

text \<open>Stand-ins for the platform on the inputs of the examples below: the UTF-8 decoder
  on ASCII bytes, and \<^verbatim>\<open>JSON.parse\<close> on the one text
  \<^verbatim>\<open>{"text":"hi","is_final":true}\<close> (every other text is refused).\<close>

definition decode_ascii :: "string \<Rightarrow> jsstring" where
  "decode_ascii bytes = js bytes"

definition hi_record :: json where
  "hi_record = JObject [(js ''text'', JString (js ''hi'')), (js ''is_final'', JBool True)]"

definition parse_hi :: "jsstring \<Rightarrow> json option" where
  "parse_hi s =
     (if s = js [CHR ''{'', CHR 0x22, CHR ''t'', CHR ''e'', CHR ''x'', CHR ''t'', CHR 0x22, CHR '':'',
                 CHR 0x22, CHR ''h'', CHR ''i'', CHR 0x22, CHR '','', CHR 0x22, CHR ''i'', CHR ''s'',
                 CHR ''_'', CHR ''f'', CHR ''i'', CHR ''n'', CHR ''a'', CHR ''l'', CHR 0x22, CHR '':'',
                 CHR ''t'', CHR ''r'', CHR ''u'', CHR ''e'', CHR ''}'']
      then Some hi_record else None)"

text \<open>The two chunks of the text above in base64, as message \<^verbatim>\<open>m1\<close>, and the
  state of a fresh hook after it has reassembled and dispatched them.\<close>

definition hi_part0 :: string where
  "hi_part0 = ''m1|0|2|eyJ0ZXh0IjoiaGkiLCJp''"

definition hi_part1 :: string where
  "hi_part1 = ''m1|1|2|c19maW5hbCI6dHJ1ZX0=''"

definition hi_delivered :: hook_state where
  "hi_delivered = initial_state\<lparr>timeouts := [(5000, ''m1'', Some 2)], turnIdCounter := 1,
     messageList := [\<lparr>turn_id = 0, uid = 1, text' = js ''hi'', status = 1, timestamp = None\<rparr>]\<rparr>"

text \<open>The chunks collected so far for a message.\<close>

definition pendingChunks :: "hook_state \<Rightarrow> string \<Rightarrow> TextDataChunk list" where
  "pendingChunks st m = (case messageCache st m of None \<Rightarrow> [] | Some stored \<Rightarrow> stored)"

section \<open>Voice activity (the volume check of hooks/useAgoraVideoClient.ts)\<close>

text \<open>
  The array \<^verbatim>\<open>volumes\<close> belongs to one run of the effect that owns the interval;
  within one run the captured \<^verbatim>\<open>isAgentSpeaking\<close> is the current one.  A volume
  level is a real number.
\<close>

record vad_state =
  volumes :: "real list"
  isAgentSpeaking :: bool

definition listening :: vad_state where
  "listening = \<lparr>volumes = [], isAgentSpeaking = False\<rparr>"

text \<open>The array after \<^verbatim>\<open>push\<close> and \<^verbatim>\<open>shift\<close>.\<close>

definition window :: "real \<Rightarrow> vad_state \<Rightarrow> real list" where
  "window volume st =
     (let pushed = volumes st @ [volume]
      in if length pushed > 3 then tl pushed else pushed)"

definition isAllZero :: "real list \<Rightarrow> bool" where
  "isAllZero vs = (length vs \<ge> 2 \<and> list_all (\<lambda>v. v = 0) vs)"

definition hasSound :: "real list \<Rightarrow> bool" where
  "hasSound vs = (length vs \<ge> 2 \<and> list_ex (\<lambda>v. v > 0) vs)"

text \<open>The callback of \<^verbatim>\<open>setInterval\<close>, with the volume level it read.\<close>

definition intervalCallback :: "real \<Rightarrow> vad_state \<Rightarrow> vad_state" where
  "intervalCallback volume st =
     (let vs = window volume st
      in if isAllZero vs \<and> isAgentSpeaking st then \<lparr>volumes = vs, isAgentSpeaking = False\<rparr>
         else if hasSound vs \<and> \<not> isAgentSpeaking st then \<lparr>volumes = vs, isAgentSpeaking = True\<rparr>
         else st\<lparr>volumes := vs\<rparr>)"

text \<open>
  One tick of the 100 ms interval.  The effect lists \<^verbatim>\<open>isAgentSpeaking\<close> among its
  dependencies: when the callback has changed that state, the component renders again,
  the cleanup clears the interval, and the effect runs again and starts a new interval
  over a new, empty \<^verbatim>\<open>volumes\<close> array.
\<close>

definition volumeCheck :: "real \<Rightarrow> vad_state \<Rightarrow> vad_state" where
  "volumeCheck volume st =
     (let st' = intervalCallback volume st
      in if isAgentSpeaking st' \<noteq> isAgentSpeaking st then st'\<lparr>volumes := []\<rparr> else st')"

definition volumeChecks :: "real list \<Rightarrow> vad_state \<Rightarrow> vad_state" where
  "volumeChecks samples st = foldl (\<lambda>s v. volumeCheck v s) st samples"

section \<open>Audio visualization (hooks/useAudioVisualization.ts)\<close>

text \<open>
  Numbers are real numbers here: the rounding of floating point arithmetic is not
  modelled.  \<^verbatim>\<open>dataArray\<close> is the byte array that the analyser fills; its length
  is \<^verbatim>\<open>frequencyBinCount\<close>, 128 for the \<^verbatim>\<open>fftSize\<close> of 256 that the hook sets.
\<close>

record AudioVisualizationOptions =
  threshold :: real
  barCount :: nat
  amplification :: real
  volumeDecay :: real
  attackRate :: real
  updateInterval :: int

definition defaultOptions :: AudioVisualizationOptions where
  "defaultOptions = \<lparr>threshold = 0.15, barCount = 24, amplification = 4.0,
     volumeDecay = 0.95, attackRate = 0.3, updateInterval = 33\<rparr>"

record visualization_state =
  smoothedVolumeRef :: real
  currentLitCountRef :: real
  lastUpdateRef :: int
  frequencyData :: "nat list"

definition initial_visualization :: "AudioVisualizationOptions \<Rightarrow> visualization_state" where
  "initial_visualization opts = \<lparr>smoothedVolumeRef = 0, currentLitCountRef = 0,
     lastUpdateRef = 0, frequencyData = replicate (barCount opts) 0\<rparr>"

definition averageVolume :: "8 word list \<Rightarrow> real" where
  "averageVolume dataArray =
     foldl (\<lambda>sum b. sum + real (unat b)) 0 dataArray / real (length dataArray)"

definition rawVolume :: "AudioVisualizationOptions \<Rightarrow> 8 word list \<Rightarrow> real" where
  "rawVolume opts dataArray =
     (let rawVolume = min 1 ((averageVolume dataArray / 255) * amplification opts)
      in if rawVolume < threshold opts then 0
         else (rawVolume - threshold opts) / (1 - threshold opts))"

definition smoothedVolume :: "AudioVisualizationOptions \<Rightarrow> 8 word list \<Rightarrow> visualization_state \<Rightarrow> real" where
  "smoothedVolume opts dataArray st =
     (let previousSmoothedVolume = smoothedVolumeRef st
      in if rawVolume opts dataArray > previousSmoothedVolume
         then rawVolume opts dataArray
         else previousSmoothedVolume * volumeDecay opts)"

definition targetLitCount :: "AudioVisualizationOptions \<Rightarrow> 8 word list \<Rightarrow> visualization_state \<Rightarrow> real" where
  "targetLitCount opts dataArray st = smoothedVolume opts dataArray st * real (barCount opts)"

definition newLitCount :: "AudioVisualizationOptions \<Rightarrow> 8 word list \<Rightarrow> visualization_state \<Rightarrow> real" where
  "newLitCount opts dataArray st =
     (let currentLitCount = currentLitCountRef st
      in if targetLitCount opts dataArray st > currentLitCount
         then currentLitCount + (targetLitCount opts dataArray st - currentLitCount) * attackRate opts
         else currentLitCount * volumeDecay opts)"

text \<open>\<^verbatim>\<open>Math.round\<close> rounds halves up.\<close>

definition Math_round :: "real \<Rightarrow> int" where
  "Math_round x = \<lfloor>x + 1 / 2\<rfloor>"

text \<open>One call of \<^verbatim>\<open>updateData\<close>, at the time \<open>now\<close> that \<^verbatim>\<open>Date.now()\<close> gives.\<close>

definition updateData ::
  "AudioVisualizationOptions \<Rightarrow> int \<Rightarrow> 8 word list \<Rightarrow> visualization_state \<Rightarrow> visualization_state" where
  "updateData opts now dataArray st =
     (let displayLitCount = Math_round (newLitCount opts dataArray st);
          visualizationData = map (\<lambda>i. if int i < displayLitCount then 1 else 0) [0 ..< barCount opts];
          st1 = st\<lparr>smoothedVolumeRef := smoothedVolume opts dataArray st,
                   currentLitCountRef := newLitCount opts dataArray st\<rparr>
      in if now - lastUpdateRef st \<ge> updateInterval opts
         then st1\<lparr>frequencyData := visualizationData, lastUpdateRef := now\<rparr>
         else st1)"

text \<open>The calls of \<^verbatim>\<open>updateData\<close> of successive animation frames.\<close>

definition updates ::
  "AudioVisualizationOptions \<Rightarrow> (int \<times> 8 word list) list \<Rightarrow> visualization_state \<Rightarrow> visualization_state" where
  "updates opts frames st = foldl (\<lambda>s f. updateData opts (fst f) (snd f) s) st frames"

text \<open>The ranges that the two references stay in.\<close>

definition in_range :: "AudioVisualizationOptions \<Rightarrow> visualization_state \<Rightarrow> bool" where
  "in_range opts st =
     (0 \<le> smoothedVolumeRef st \<and> smoothedVolumeRef st \<le> 1 \<and>
      0 \<le> currentLitCountRef st \<and> currentLitCountRef st \<le> real (barCount opts))"

section \<open>Properties of the transcript dispatcher\<close>

lemma trim_all_white: "\<forall>c \<in> set t. isWhiteSpace c \<Longrightarrow> trim t = []"
proof -
  assume "\<forall>c \<in> set t. isWhiteSpace c"
  then have d: "dropWhile isWhiteSpace t = []" by simp
  show ?thesis unfolding trim_def d by simp
qed

lemma trim_some_text: "\<exists>c \<in> set t. \<not> isWhiteSpace c \<Longrightarrow> trim t \<noteq> []"
proof -
  assume "\<exists>c \<in> set t. \<not> isWhiteSpace c"
  then have ne: "dropWhile isWhiteSpace t \<noteq> []" by simp
  then have "\<not> isWhiteSpace (hd (dropWhile isWhiteSpace t))" by (rule hd_dropWhile)
  moreover have "hd (dropWhile isWhiteSpace t) \<in> set (rev (dropWhile isWhiteSpace t))"
    using ne by simp
  ultimately have "dropWhile isWhiteSpace (rev (dropWhile isWhiteSpace t)) \<noteq> []"
    by (metis dropWhile_eq_Nil_conv)
  then show ?thesis unfolding trim_def by simp
qed

lemma field_Some_not_null: "field parsedMsg k = Some v \<Longrightarrow> parsedMsg \<noteq> JNull"
  by (cases parsedMsg) simp_all

lemma handleTenMessage_blank:
  assumes "field parsedMsg (js ''text'') = Some (JString t)" and "\<forall>c \<in> set t. isWhiteSpace c"
  shows "handleTenMessage parsedMsg st = Inr st"
  using assms by (cases parsedMsg) (simp_all add: handleTenMessage_def trim_all_white)

lemma handleTenMessage_final:
  assumes "field parsedMsg (js ''text'') = Some (JString t)" and "\<exists>c \<in> set t. \<not> isWhiteSpace c"
    and "field parsedMsg (js ''is_final'') = Some (JBool True)"
  shows "handleTenMessage parsedMsg st =
     Inr (st\<lparr>turnIdCounter := turnIdCounter st + 1,
             messageList := messageList st @
               [\<lparr>turn_id = turnIdCounter st,
                 uid = (if field parsedMsg (js ''role'') = Some (JString (js ''assistant'')) then 0 else 1),
                 text' = t, status = 1, timestamp = field parsedMsg (js ''text_ts'')\<rparr>],
             currentInProgressMessage := None\<rparr>)"
proof -
  have "t \<noteq> []" using assms(2) by auto
  moreover have "trim t \<noteq> []" using assms(2) by (rule trim_some_text)
  ultimately show ?thesis using assms(1,3)
    by (cases parsedMsg) (simp_all add: handleTenMessage_def Let_def)
qed

lemma dispatch_counter: "turnIdCounter (dispatch m st) = turnIdCounter st \<or> turnIdCounter (dispatch m st) = turnIdCounter st + 1"
  by (cases m) (auto simp: dispatch_def handleTenMessage_def Let_def split: option.splits json.splits)

lemma dispatch_counter_mono: "turnIdCounter st \<le> turnIdCounter (dispatch m st)"
  using dispatch_counter [of m st] by auto

lemma dispatchAll_counter_mono: "turnIdCounter st \<le> turnIdCounter (dispatchAll msgs st)"
proof (induction msgs arbitrary: st)
  case Nil show ?case by (simp add: dispatchAll_def)
next
  case (Cons m ms)
  have "turnIdCounter st \<le> turnIdCounter (dispatch m st)" by (rule dispatch_counter_mono)
  also have "\<dots> \<le> turnIdCounter (dispatchAll ms (dispatch m st))" by (rule Cons.IH)
  finally show ?case by (simp add: dispatchAll_def)
qed

lemma dispatchAll_append: "dispatchAll (xs @ ys) st = dispatchAll ys (dispatchAll xs st)"
  by (simp add: dispatchAll_def)

lemma dispatch_turn_ids_below: "turn_ids_below st \<Longrightarrow> turn_ids_below (dispatch m st)"
  by (cases m) (auto simp: turn_ids_below_def dispatch_def handleTenMessage_def Let_def less_Suc_eq split: option.splits json.splits)

lemma dispatchAll_turn_ids_below: "turn_ids_below st \<Longrightarrow> turn_ids_below (dispatchAll msgs st)"
  by (induction msgs arbitrary: st) (simp_all add: dispatchAll_def dispatch_turn_ids_below)

lemma initial_turn_ids_below: "turn_ids_below initial_state"
  by (simp add: turn_ids_below_def initial_state_def)

lemma dispatchAll_example: "dispatchAll [JObject [(js ''text'', JString (js ''hel'')), (js ''is_final'', JBool False)]] initial_state
   = \<lparr>messageCache = Map.empty, timeouts = [], turnIdCounter = 1, messageList = [],
       currentInProgressMessage = Some \<lparr>turn_id = 0, uid = 1, text' = js ''hel'', status = 0, timestamp = None\<rparr>\<rparr>"
  by (simp add: dispatchAll_def dispatch_def handleTenMessage_def initial_state_def js_def trim_def isWhiteSpace_def)

text \<open>
  Claim C7.  A record with a text that is not blank and with \<^verbatim>\<open>is_final\<close> true
  appends exactly one message to \<^verbatim>\<open>messageList\<close> and empties the in-progress
  slot.  The message carries the counter as its turn id, which is greater than the
  turn id of every message in the list, of the in-progress message, and than every
  turn id handed out by an earlier dispatch since the initial state.  The messages
  already in the list stay as they are.
\<close>

theorem finalized_message_appended:
  assumes "st = dispatchAll earlier initial_state"
    and "field parsedMsg (js ''text'') = Some (JString t)"
    and "\<exists>c \<in> set t. \<not> isWhiteSpace c"
    and "field parsedMsg (js ''is_final'') = Some (JBool True)"
  shows "\<exists>m. handleTenMessage parsedMsg st =
            Inr (st\<lparr>turnIdCounter := turnIdCounter st + 1,
                    messageList := messageList st @ [m],
                    currentInProgressMessage := None\<rparr>)
          \<and> text' m = t
          \<and> turn_id m = turnIdCounter st
          \<and> (\<forall>m' \<in> set (messageList st). turn_id m' < turn_id m)
          \<and> (\<forall>p. currentInProgressMessage st = Some p \<longrightarrow> turn_id p < turn_id m)
          \<and> (\<forall>pre x post. earlier = pre @ x # post
                \<and> turnIdCounter (dispatch x (dispatchAll pre initial_state))
                    \<noteq> turnIdCounter (dispatchAll pre initial_state)
                \<longrightarrow> turnIdCounter (dispatchAll pre initial_state) < turn_id m)"
proof -
  let ?m = "\<lparr>turn_id = turnIdCounter st,
              uid = (if field parsedMsg (js ''role'') = Some (JString (js ''assistant'')) then 0 else 1),
              text' = t, status = 1, timestamp = field parsedMsg (js ''text_ts'')\<rparr>"
  have step: "handleTenMessage parsedMsg st =
            Inr (st\<lparr>turnIdCounter := turnIdCounter st + 1,
                    messageList := messageList st @ [?m],
                    currentInProgressMessage := None\<rparr>)"
    using assms(2-4) by (rule handleTenMessage_final)
  have below: "turn_ids_below st"
    unfolding assms(1) by (rule dispatchAll_turn_ids_below) (rule initial_turn_ids_below)
  have earlier_ids: "turnIdCounter (dispatchAll pre initial_state) < turnIdCounter st"
    if "earlier = pre @ x # post"
      and "turnIdCounter (dispatch x (dispatchAll pre initial_state))
            \<noteq> turnIdCounter (dispatchAll pre initial_state)" for pre x post
  proof -
    have "turnIdCounter (dispatchAll pre initial_state)
            < turnIdCounter (dispatch x (dispatchAll pre initial_state))"
      using that(2) dispatch_counter_mono [of "dispatchAll pre initial_state" x] by simp
    also have "\<dots> \<le> turnIdCounter (dispatchAll post (dispatch x (dispatchAll pre initial_state)))"
      by (rule dispatchAll_counter_mono)
    also have "\<dots> = turnIdCounter st"
      unfolding assms(1) that(1) by (simp add: dispatchAll_def)
    finally show ?thesis .
  qed
  show ?thesis
  proof (intro exI [of _ ?m] conjI)
    show "handleTenMessage parsedMsg st =
            Inr (st\<lparr>turnIdCounter := turnIdCounter st + 1,
                    messageList := messageList st @ [?m],
                    currentInProgressMessage := None\<rparr>)" by (rule step)
    show "\<forall>m' \<in> set (messageList st). turn_id m' < turn_id ?m"
      using below by (simp add: turn_ids_below_def)
    show "\<forall>p. currentInProgressMessage st = Some p \<longrightarrow> turn_id p < turn_id ?m"
      using below by (simp add: turn_ids_below_def)
    show "\<forall>pre x post. earlier = pre @ x # post
                \<and> turnIdCounter (dispatch x (dispatchAll pre initial_state))
                    \<noteq> turnIdCounter (dispatchAll pre initial_state)
                \<longrightarrow> turnIdCounter (dispatchAll pre initial_state) < turn_id ?m"
      using earlier_ids by auto
  qed simp_all
qed

theorem finalized_message_appended_witness:
  "\<exists>m. handleTenMessage
          (JObject [(js ''role'', JString (js ''assistant'')), (js ''text'', JString (js ''hello'')),
                    (js ''is_final'', JBool True)])
          (dispatchAll [JObject [(js ''text'', JString (js ''hel'')), (js ''is_final'', JBool False)]]
             initial_state)
        = Inr \<lparr>messageCache = Map.empty, timeouts = [], turnIdCounter = 2, messageList = [m],
               currentInProgressMessage = None\<rparr>
      \<and> text' m = js ''hello'' \<and> turn_id m = 1"
proof -
  let ?final = "JObject [(js ''role'', JString (js ''assistant'')), (js ''text'', JString (js ''hello'')),
                    (js ''is_final'', JBool True)]"
  let ?partial = "JObject [(js ''text'', JString (js ''hel'')), (js ''is_final'', JBool False)]"
  have a: "field ?final (js ''text'') = Some (JString (js ''hello''))" by (simp add: js_def)
  have b: "\<exists>c \<in> set (js ''hello''). \<not> isWhiteSpace c" by (simp add: js_def isWhiteSpace_def)
  have c: "field ?final (js ''is_final'') = Some (JBool True)" by (simp add: js_def)
  show ?thesis
    using finalized_message_appended [OF refl a b c, of "[?partial]"]
    unfolding dispatchAll_example by auto
qed

text \<open>
  Claim C8.  A record whose text is empty or holds only white space changes nothing:
  \<^verbatim>\<open>handleTenMessage\<close> returns with the state it was given.
\<close>

theorem blank_text_no_op:
  assumes "field parsedMsg (js ''text'') = Some (JString t)" and "\<forall>c \<in> set t. isWhiteSpace c"
  shows "handleTenMessage parsedMsg st = Inr st"
  using assms by (rule handleTenMessage_blank)

theorem blank_text_no_op_witness:
  "handleTenMessage (JObject [(js ''text'', JString [0x20, 0x09, 0x0A]), (js ''is_final'', JBool True)]) initial_state
     = Inr initial_state"
  by (rule blank_text_no_op [where t = "[0x20, 0x09, 0x0A]"]) (simp_all add: js_def isWhiteSpace_def)

section \<open>Properties of the chunk reassembler\<close>

lemma handleTenMessage_cache:
  "handleTenMessage p (st\<lparr>messageCache := c\<rparr>) =
     (case handleTenMessage p st of Inl e \<Rightarrow> Inl e | Inr s \<Rightarrow> Inr (s\<lparr>messageCache := c\<rparr>))"
  by (cases p) (auto simp: handleTenMessage_def Let_def split: option.splits json.splits)

lemma tryDecodeAndDispatch_cache:
  "tryDecodeAndDispatch decode parse b (st\<lparr>messageCache := c\<rparr>) =
     (tryDecodeAndDispatch decode parse b st)\<lparr>messageCache := c\<rparr>"
  by (auto simp: tryDecodeAndDispatch_def decodeAndDispatch_def handleTenMessage_cache
      split: sum.splits option.splits)

lemma handleTenMessage_frame:
  "handleTenMessage p st = Inr s \<Longrightarrow> messageCache s = messageCache st \<and> timeouts s = timeouts st"
  by (cases p) (auto simp: handleTenMessage_def Let_def split: option.splits json.splits if_splits)

lemma tryDecodeAndDispatch_frame:
  "messageCache (tryDecodeAndDispatch decode parse b st) = messageCache st"
  "timeouts (tryDecodeAndDispatch decode parse b st) = timeouts st"
  by (auto simp: tryDecodeAndDispatch_def decodeAndDispatch_def dest: handleTenMessage_frame
      split: sum.splits option.splits)

lemma pushAndReconstruct_pending:
  assumes "Some (int (length stored) + 1) \<noteq> total_parts chunk"
  shows "pushAndReconstruct decode parse chunk stored st =
           st\<lparr>messageCache := (messageCache st)(message_id chunk \<mapsto> stored @ [chunk])\<rparr>"
  using assms by (simp add: pushAndReconstruct_def Let_def add.commute)

lemma pushAndReconstruct_complete:
  assumes "Some (int (length stored) + 1) = total_parts chunk"
  shows "pushAndReconstruct decode parse chunk stored st =
           (tryDecodeAndDispatch decode parse (joinContents (sortChunks (stored @ [chunk]))) st)
             \<lparr>messageCache := (messageCache st)(message_id chunk := None)\<rparr>"
  using assms by (simp add: pushAndReconstruct_def Let_def tryDecodeAndDispatch_cache add.commute)

lemma handleStreamMessage_unknown:
  "total_parts (parseChunk data) = Some (- 1) \<Longrightarrow> handleStreamMessage decode parse data st = Inr st"
  by (simp add: handleStreamMessage_def handleStreamMessage_try_def)

lemma handleStreamMessage_inherited:
  "messageCache st (message_id (parseChunk data)) = None \<Longrightarrow>
   message_id (parseChunk data) \<in> set Object_prototype_keys \<Longrightarrow>
   handleStreamMessage decode parse data st = Inr st"
  by (simp add: handleStreamMessage_def handleStreamMessage_try_def Let_def)

lemma handleStreamMessage_first:
  assumes "total_parts (parseChunk data) \<noteq> Some (- 1)"
    and "messageCache st (message_id (parseChunk data)) = None"
    and "message_id (parseChunk data) \<notin> set Object_prototype_keys"
  shows "handleStreamMessage decode parse data st =
           Inr (pushAndReconstruct decode parse (parseChunk data) []
                  (st\<lparr>messageCache := (messageCache st)(message_id (parseChunk data) \<mapsto> []),
                      timeouts := timeouts st @
                        [(5000, message_id (parseChunk data), total_parts (parseChunk data))]\<rparr>))"
  using assms by (simp add: handleStreamMessage_def handleStreamMessage_try_def Let_def)

lemma handleStreamMessage_next:
  assumes "total_parts (parseChunk data) \<noteq> Some (- 1)"
    and "messageCache st (message_id (parseChunk data)) = Some stored"
  shows "handleStreamMessage decode parse data st =
           Inr (pushAndReconstruct decode parse (parseChunk data) stored st)"
  using assms by (simp add: handleStreamMessage_def handleStreamMessage_try_def Let_def)

lemma handleStreamMessage_returns: "\<exists>st'. handleStreamMessage decode parse data st = Inr st'"
  by (simp add: handleStreamMessage_def split: sum.splits)

subsection \<open>The sort\<close>

lemma comesBefore_iff:
  "comesBefore a b \<longleftrightarrow> (\<exists>i j. part_index a = Some i \<and> part_index b = Some j \<and> i < j)"
  by (auto simp: comesBefore_def compareFn_def split: option.splits)

lemma comesBefore_trans: "comesBefore a b \<Longrightarrow> comesBefore b c \<Longrightarrow> comesBefore a c"
  by (auto simp: comesBefore_iff)

lemma comesBefore_asym: "comesBefore a b \<Longrightarrow> \<not> comesBefore b a"
  by (auto simp: comesBefore_iff)

lemma set_insertChunk: "set (insertChunk x ys) = insert x (set ys)"
  by (induction ys) auto

lemma mset_insertChunk: "mset (insertChunk x ys) = add_mset x (mset ys)"
  by (induction ys) auto

lemma sorted_insertChunk:
  assumes "sorted_wrt comesBefore ys" and "\<forall>y \<in> set ys. comesBefore x y \<or> comesBefore y x"
  shows "sorted_wrt comesBefore (insertChunk x ys)"
  using assms
proof (induction ys)
  case Nil
  show ?case by simp
next
  case (Cons y ys)
  show ?case
  proof (cases "comesBefore x y")
    case True
    then have "\<forall>z \<in> set (y # ys). comesBefore x z"
      using Cons.prems(1) by (auto intro: comesBefore_trans)
    with True Cons.prems(1) show ?thesis by simp
  next
    case False
    then have "comesBefore y x" using Cons.prems(2) by simp
    moreover have "sorted_wrt comesBefore (insertChunk x ys)"
      using Cons.IH Cons.prems by simp
    ultimately show ?thesis using False Cons.prems(1) by (simp add: set_insertChunk)
  qed
qed

lemma sortChunks_snoc: "sortChunks (cs @ [c]) = insertChunk c (sortChunks cs)"
  by (simp add: sortChunks_def)

lemma mset_sortChunks: "mset (sortChunks cs) = mset cs"
  by (induction cs rule: rev_induct) (simp_all add: sortChunks_snoc mset_insertChunk, simp add: sortChunks_def)

lemma set_sortChunks: "set (sortChunks cs) = set cs"
  using mset_sortChunks [of cs] by (metis set_mset_mset)

lemma sorted_sortChunks:
  assumes "\<forall>c \<in> set cs. part_index c \<noteq> None" and "distinct (map part_index cs)"
  shows "sorted_wrt comesBefore (sortChunks cs)"
  using assms
proof (induction cs rule: rev_induct)
  case Nil
  show ?case by (simp add: sortChunks_def)
next
  case (snoc c cs)
  have "\<forall>y \<in> set cs. comesBefore c y \<or> comesBefore y c"
  proof
    fix y assume y: "y \<in> set cs"
    obtain i j where "part_index c = Some i" "part_index y = Some j"
      using snoc.prems(1) y by auto
    moreover have "part_index c \<noteq> part_index y" using snoc.prems(2) y by auto
    ultimately show "comesBefore c y \<or> comesBefore y c" by (auto simp: comesBefore_iff)
  qed
  moreover have "sorted_wrt comesBefore (sortChunks cs)" using snoc by simp
  ultimately show ?case by (simp add: sortChunks_snoc sorted_insertChunk set_sortChunks)
qed

lemma sorted_wrt_comesBefore_unique:
  assumes "sorted_wrt comesBefore xs" and "sorted_wrt comesBefore ys" and "set xs = set ys"
  shows "xs = ys"
  using assms
proof (induction xs arbitrary: ys)
  case Nil
  then show ?case by simp
next
  case (Cons x xs)
  then obtain y ys' where ys: "ys = y # ys'" by (cases ys) auto
  have irrefl: "\<not> comesBefore z z" for z using comesBefore_asym by blast
  have xy: "x = y"
  proof (rule ccontr)
    assume ne: "x \<noteq> y"
    then have "x \<in> set ys'" "y \<in> set xs" using Cons.prems(3) ys by auto
    then have "comesBefore y x" "comesBefore x y" using Cons.prems(1,2) ys by auto
    then show False using comesBefore_asym by blast
  qed
  have "x \<notin> set xs" "y \<notin> set ys'" using Cons.prems(1,2) ys irrefl by auto
  then have "set xs = set ys'" using Cons.prems(3) ys xy by auto
  then have "xs = ys'" using Cons.IH Cons.prems(1,2) ys by simp
  then show ?case using xy ys by simp
qed

lemma sortChunks_permutation:
  assumes "mset cs' = mset cs"
    and "\<forall>c \<in> set cs. part_index c \<noteq> None" and "distinct (map part_index cs)"
  shows "sortChunks cs' = sortChunks cs"
proof -
  have set_eq: "set cs' = set cs" using assms(1) by (rule mset_eq_setD)
  have "mset (map part_index cs') = mset (map part_index cs)" using assms(1) by simp
  then have "distinct (map part_index cs')" using assms(3) by (metis mset_eq_imp_distinct_iff)
  then have "sorted_wrt comesBefore (sortChunks cs')"
    using assms(2) set_eq by (intro sorted_sortChunks) auto
  moreover have "sorted_wrt comesBefore (sortChunks cs)"
    using assms(2,3) by (rule sorted_sortChunks)
  ultimately show ?thesis
    using set_eq by (intro sorted_wrt_comesBefore_unique) (simp_all add: set_sortChunks)
qed


subsection \<open>Chunks of one message, one after the other\<close>

lemma ingest_append:
  "ingest decode parse (xs @ ys) st =
     (case ingest decode parse xs st of Inl e \<Rightarrow> Inl e | Inr s \<Rightarrow> ingest decode parse ys s)"
proof (induction xs arbitrary: st)
  case Nil
  show ?case by simp
next
  case (Cons x xs)
  show ?case
    using handleStreamMessage_returns [of decode parse x st] by (auto simp: Cons.IH)
qed

lemma ingest_pending:
  assumes "\<forall>d \<in> set ds. message_id (parseChunk d) = m \<and> total_parts (parseChunk d) = Some n"
    and "messageCache st m = Some stored"
    and "int (length stored) + int (length ds) < n"
  shows "ingest decode parse ds st =
           Inr (st\<lparr>messageCache := (messageCache st)(m \<mapsto> stored @ map parseChunk ds)\<rparr>)"
  using assms
proof (induction ds arbitrary: st stored)
  case Nil
  then have "(messageCache st)(m \<mapsto> stored) = messageCache st" by (simp add: fun_upd_idem)
  then show ?case by simp
next
  case (Cons d ds)
  let ?c = "parseChunk d"
  have c: "message_id ?c = m" "total_parts ?c = Some n" using Cons.prems(1) by simp_all
  have n: "n \<noteq> - 1" "Some (int (length stored) + 1) \<noteq> total_parts ?c"
    using Cons.prems(3) c by auto
  let ?st1 = "st\<lparr>messageCache := (messageCache st)(m \<mapsto> stored @ [?c])\<rparr>"
  have step: "handleStreamMessage decode parse d st = Inr ?st1"
    using handleStreamMessage_next [of d st stored decode parse]
      pushAndReconstruct_pending [OF n(2), of decode parse st] c n(1) Cons.prems(2) by simp
  have "ingest decode parse (d # ds) st = ingest decode parse ds ?st1"
    using step by simp
  also have "\<dots> =
          Inr (?st1\<lparr>messageCache := (messageCache ?st1)(m \<mapsto> (stored @ [?c]) @ map parseChunk ds)\<rparr>)"
    using Cons.prems by (intro Cons.IH) simp_all
  also have "?st1\<lparr>messageCache := (messageCache ?st1)(m \<mapsto> (stored @ [?c]) @ map parseChunk ds)\<rparr>
               = st\<lparr>messageCache := (messageCache st)(m \<mapsto> stored @ map parseChunk (d # ds))\<rparr>"
    by simp
  finally show ?case .
qed

lemma ingest_completing:
  assumes "\<forall>d \<in> set ds. message_id (parseChunk d) = m \<and> total_parts (parseChunk d) = Some n"
    and "messageCache st m = Some stored"
    and "int (length stored) + int (length ds) = n" and "ds \<noteq> []"
  shows "ingest decode parse ds st =
           Inr ((tryDecodeAndDispatch decode parse
                   (joinContents (sortChunks (stored @ map parseChunk ds))) st)
                 \<lparr>messageCache := (messageCache st)(m := None)\<rparr>)"
proof -
  obtain ds0 d where ds: "ds = ds0 @ [d]" using assms(4) by (metis rev_exhaust)
  let ?c = "parseChunk d"
  let ?stored1 = "stored @ map parseChunk ds0"
  let ?st1 = "st\<lparr>messageCache := (messageCache st)(m \<mapsto> ?stored1)\<rparr>"
  have c: "message_id ?c = m" "total_parts ?c = Some n" using assms(1) ds by simp_all
  have n: "n \<noteq> - 1" using assms(3) ds by auto
  have "ingest decode parse ds0 st = Inr ?st1"
    using assms(1-3) ds by (intro ingest_pending) auto
  moreover have "handleStreamMessage decode parse d ?st1 =
      Inr (pushAndReconstruct decode parse ?c ?stored1 ?st1)"
    using c n by (intro handleStreamMessage_next) simp_all
  moreover have "Some (int (length ?stored1) + 1) = total_parts ?c"
    using assms(3) ds c by simp
  then have "pushAndReconstruct decode parse ?c ?stored1 ?st1 =
      (tryDecodeAndDispatch decode parse (joinContents (sortChunks (?stored1 @ [?c]))) ?st1)
        \<lparr>messageCache := (messageCache ?st1)(message_id ?c := None)\<rparr>"
    by (rule pushAndReconstruct_complete)
  ultimately show ?thesis
    using c ds by (simp add: ingest_append tryDecodeAndDispatch_cache)
qed

lemma ingest_first:
  assumes "ds \<noteq> []"
    and "\<forall>d \<in> set ds. message_id (parseChunk d) = m \<and> total_parts (parseChunk d) = Some n"
    and "n \<noteq> - 1" and "messageCache st m = None" and "m \<notin> set Object_prototype_keys"
  shows "ingest decode parse ds st =
           ingest decode parse ds
             (st\<lparr>messageCache := (messageCache st)(m \<mapsto> []),
                 timeouts := timeouts st @ [(5000, m, Some n)]\<rparr>)"
proof -
  obtain d ds' where ds: "ds = d # ds'" using assms(1) by (cases ds) auto
  have c: "message_id (parseChunk d) = m" "total_parts (parseChunk d) = Some n"
    using assms(2) ds by simp_all
  let ?st0 = "st\<lparr>messageCache := (messageCache st)(m \<mapsto> []),
                 timeouts := timeouts st @ [(5000, m, Some n)]\<rparr>"
  have "handleStreamMessage decode parse d st =
          Inr (pushAndReconstruct decode parse (parseChunk d) [] ?st0)"
    using handleStreamMessage_first [of d st decode parse] c assms(3-5) by simp
  moreover have "handleStreamMessage decode parse d ?st0 =
          Inr (pushAndReconstruct decode parse (parseChunk d) [] ?st0)"
    using c assms(3) by (intro handleStreamMessage_next) simp_all
  ultimately show ?thesis using ds by simp
qed

subsection \<open>A complete chunk set\<close>

text \<open>A complete chunk set of a message that has no entry yet.\<close>

lemma ingest_complete_set:
  assumes "\<forall>d \<in> set ds. message_id (parseChunk d) = m \<and> total_parts (parseChunk d) = Some n"
    and "int (length ds) = n" and "ds \<noteq> []"
    and "messageCache st m = None" and "m \<notin> set Object_prototype_keys"
  shows "ingest decode parse ds st =
           Inr (tryDecodeAndDispatch decode parse (joinContents (sortChunks (map parseChunk ds)))
                  (st\<lparr>timeouts := timeouts st @ [(5000, m, Some n)]\<rparr>))"
proof -
  let ?st0 = "st\<lparr>messageCache := (messageCache st)(m \<mapsto> []),
                 timeouts := timeouts st @ [(5000, m, Some n)]\<rparr>"
  let ?b = "joinContents (sortChunks (map parseChunk ds))"
  let ?st' = "st\<lparr>timeouts := timeouts st @ [(5000, m, Some n)]\<rparr>"
  have n: "n \<noteq> - 1" using assms(2) by auto
  have "ingest decode parse ds st = ingest decode parse ds ?st0"
    using assms(3,1) n assms(4,5) by (rule ingest_first)
  also have "\<dots> = Inr ((tryDecodeAndDispatch decode parse (joinContents (sortChunks ([] @ map parseChunk ds))) ?st0)
                 \<lparr>messageCache := (messageCache ?st0)(m := None)\<rparr>)"
    using assms(1,2,3) by (intro ingest_completing) simp_all
  also have "(messageCache ?st0)(m := None) = messageCache st"
    using assms(4) by (simp add: fun_upd_idem)
  also have "?st0 = ?st'\<lparr>messageCache := (messageCache st)(m \<mapsto> [])\<rparr>" by simp
  also have "(tryDecodeAndDispatch decode parse (joinContents (sortChunks ([] @ map parseChunk ds)))
                (?st'\<lparr>messageCache := (messageCache st)(m \<mapsto> [])\<rparr>))\<lparr>messageCache := messageCache st\<rparr>
             = tryDecodeAndDispatch decode parse ?b ?st'"
    using tryDecodeAndDispatch_frame(1) [of decode parse ?b ?st']
    by (simp add: tryDecodeAndDispatch_cache)
  finally show ?thesis .
qed

text \<open>Before the last chunk of the set has arrived nothing is dispatched.\<close>

lemma ingest_incomplete_set:
  assumes "\<forall>d \<in> set ds. message_id (parseChunk d) = m \<and> total_parts (parseChunk d) = Some n"
    and "int (length ds) < n" and "ds \<noteq> []"
    and "messageCache st m = None" and "m \<notin> set Object_prototype_keys"
  shows "ingest decode parse ds st =
           Inr (st\<lparr>messageCache := (messageCache st)(m \<mapsto> map parseChunk ds),
                   timeouts := timeouts st @ [(5000, m, Some n)]\<rparr>)"
proof -
  let ?st0 = "st\<lparr>messageCache := (messageCache st)(m \<mapsto> []),
                 timeouts := timeouts st @ [(5000, m, Some n)]\<rparr>"
  have n: "n \<noteq> - 1" using assms(2) by auto
  have "ingest decode parse ds st = ingest decode parse ds ?st0"
    using assms(3,1) n assms(4,5) by (rule ingest_first)
  also have "\<dots> = Inr (?st0\<lparr>messageCache := (messageCache ?st0)(m \<mapsto> [] @ map parseChunk ds)\<rparr>)"
    using assms(1,2) by (intro ingest_pending) simp_all
  finally show ?thesis by simp
qed

lemma complete_set_order_independent:
  assumes "\<forall>d \<in> set ds. message_id (parseChunk d) = m \<and> total_parts (parseChunk d) = Some n
             \<and> part_index (parseChunk d) \<noteq> None"
    and "distinct (map (\<lambda>d. part_index (parseChunk d)) ds)"
    and "int (length ds) = n" and "ds \<noteq> []"
    and "messageCache st m = None" and "m \<notin> set Object_prototype_keys"
    and "mset ds' = mset ds"
  shows "ingest decode parse ds' st = ingest decode parse ds st"
    and "ingest decode parse ds' st =
           Inr (tryDecodeAndDispatch decode parse (joinContents (sortChunks (map parseChunk ds)))
                  (st\<lparr>timeouts := timeouts st @ [(5000, m, Some n)]\<rparr>))"
    and "sorted_wrt comesBefore (sortChunks (map parseChunk ds))"
    and "mset (sortChunks (map parseChunk ds)) = mset (map parseChunk ds)"
    and "\<forall>k. 0 < k \<and> k < length ds' \<longrightarrow>
           ingest decode parse (take k ds') st =
             Inr (st\<lparr>messageCache := (messageCache st)(m \<mapsto> map parseChunk (take k ds')),
                     timeouts := timeouts st @ [(5000, m, Some n)]\<rparr>)"
proof -
  have set_eq: "set ds' = set ds" using assms(7) by (rule mset_eq_setD)
  have len: "length ds' = length ds" using assms(7) by (rule mset_eq_length)
  have all': "\<forall>d \<in> set ds'. message_id (parseChunk d) = m \<and> total_parts (parseChunk d) = Some n"
    using assms(1) set_eq by simp
  have ne': "ds' \<noteq> []" using assms(4) len by auto
  have sorted_eq: "sortChunks (map parseChunk ds') = sortChunks (map parseChunk ds)"
    using assms(1,2,7) by (intro sortChunks_permutation) (auto simp: comp_def)
  have orig: "ingest decode parse ds st =
           Inr (tryDecodeAndDispatch decode parse (joinContents (sortChunks (map parseChunk ds)))
                  (st\<lparr>timeouts := timeouts st @ [(5000, m, Some n)]\<rparr>))"
    using assms(1,3,4,5,6) by (intro ingest_complete_set) auto
  show perm: "ingest decode parse ds' st =
           Inr (tryDecodeAndDispatch decode parse (joinContents (sortChunks (map parseChunk ds)))
                  (st\<lparr>timeouts := timeouts st @ [(5000, m, Some n)]\<rparr>))"
    using ingest_complete_set [OF all' _ ne' assms(5,6), of decode parse] assms(3) len sorted_eq
    by simp
  show "ingest decode parse ds' st = ingest decode parse ds st"
    using perm orig by simp
  show "sorted_wrt comesBefore (sortChunks (map parseChunk ds))"
    using assms(1,2) by (intro sorted_sortChunks) (auto simp: comp_def)
  show "mset (sortChunks (map parseChunk ds)) = mset (map parseChunk ds)"
    by (rule mset_sortChunks)
  show "\<forall>k. 0 < k \<and> k < length ds' \<longrightarrow>
           ingest decode parse (take k ds') st =
             Inr (st\<lparr>messageCache := (messageCache st)(m \<mapsto> map parseChunk (take k ds')),
                     timeouts := timeouts st @ [(5000, m, Some n)]\<rparr>)"
  proof (intro allI impI)
    fix k assume k: "0 < k \<and> k < length ds'"
    have "\<forall>d \<in> set (take k ds'). message_id (parseChunk d) = m \<and> total_parts (parseChunk d) = Some n"
      using all' by (auto dest: in_set_takeD)
    moreover have "int (length (take k ds')) < n" using k len assms(3) by simp
    moreover have "take k ds' \<noteq> []" using k by auto
    ultimately show "ingest decode parse (take k ds') st =
             Inr (st\<lparr>messageCache := (messageCache st)(m \<mapsto> map parseChunk (take k ds')),
                     timeouts := timeouts st @ [(5000, m, Some n)]\<rparr>)"
      using assms(5,6) by (intro ingest_incomplete_set)
  qed
qed

subsection \<open>The chunks \<^verbatim>\<open>Qg==\<close>, \<^verbatim>\<open>SGVsbG8s\<close>, \<^verbatim>\<open>d29ybGQh\<close> of message \<^verbatim>\<open>m1\<close>\<close>

lemmas parse_simps = parseChunk_def element_def parseInt_def isStrWhiteSpaceChar_def isDigit_def

lemma m1_chunks:
  "parseChunk ''m1|1|3|Qg=='' = \<lparr>message_id = ''m1'', part_index = Some 1, total_parts = Some 3, content = Some ''Qg==''\<rparr>"
  "parseChunk ''m1|0|3|SGVsbG8s'' = \<lparr>message_id = ''m1'', part_index = Some 0, total_parts = Some 3, content = Some ''SGVsbG8s''\<rparr>"
  "parseChunk ''m1|2|3|d29ybGQh'' = \<lparr>message_id = ''m1'', part_index = Some 2, total_parts = Some 3, content = Some ''d29ybGQh''\<rparr>"
  by (simp_all add: parse_simps)

lemma m1_sorted:
  "sortChunks (map parseChunk [''m1|1|3|Qg=='', ''m1|0|3|SGVsbG8s'', ''m1|2|3|d29ybGQh'']) =
     [\<lparr>message_id = ''m1'', part_index = Some 0, total_parts = Some 3, content = Some ''SGVsbG8s''\<rparr>,
      \<lparr>message_id = ''m1'', part_index = Some 1, total_parts = Some 3, content = Some ''Qg==''\<rparr>,
      \<lparr>message_id = ''m1'', part_index = Some 2, total_parts = Some 3, content = Some ''d29ybGQh''\<rparr>]"
  by (simp add: m1_chunks sortChunks_def comesBefore_def compareFn_def)

lemma m1_atob: "atob ''SGVsbG8sQg==d29ybGQh'' = Inl InvalidCharacterError"
  by (simp add: atob_def strip_padding_def isAsciiWhitespace_def base64_value_def)

lemma tryDecodeAndDispatch_atob_fails:
  "atob b = Inl e \<Longrightarrow> tryDecodeAndDispatch decode parse b st = st"
  by (simp add: tryDecodeAndDispatch_def decodeAndDispatch_def base64ToUtf8_def)

lemma m1_not_inherited: "''m1'' \<notin> set Object_prototype_keys"
  by (simp add: Object_prototype_keys_def)

lemma m1_ingest:
  assumes "mset ds = mset [''m1|1|3|Qg=='', ''m1|0|3|SGVsbG8s'', ''m1|2|3|d29ybGQh'']"
    and "messageCache st ''m1'' = None"
  shows "map part_index (sortChunks (map parseChunk ds)) = [Some 0, Some 1, Some 2]
       \<and> joinContents (sortChunks (map parseChunk ds)) = ''SGVsbG8sQg==d29ybGQh''
       \<and> base64ToUtf8 decode ''SGVsbG8sQg==d29ybGQh'' = Inl InvalidCharacterError
       \<and> ingest decode parse ds st = Inr (st\<lparr>timeouts := timeouts st @ [(5000, ''m1'', Some 3)]\<rparr>)"
proof -
  let ?orig = "[''m1|1|3|Qg=='', ''m1|0|3|SGVsbG8s'', ''m1|2|3|d29ybGQh'']"
  have all: "\<forall>d \<in> set ?orig. message_id (parseChunk d) = ''m1'' \<and> total_parts (parseChunk d) = Some 3
               \<and> part_index (parseChunk d) \<noteq> None"
    by (simp add: m1_chunks)
  have dist: "distinct (map (\<lambda>d. part_index (parseChunk d)) ?orig)"
    by (simp add: m1_chunks)
  have "image_mset parseChunk (mset ds) = image_mset parseChunk (mset ?orig)"
    using assms(1) by (rule arg_cong)
  then have "mset (map parseChunk ds) = mset (map parseChunk ?orig)"
    by (simp only: mset_map)
  then have sorted: "sortChunks (map parseChunk ds) = sortChunks (map parseChunk ?orig)"
    by (rule sortChunks_permutation) (simp_all add: m1_chunks)
  have joined: "joinContents (sortChunks (map parseChunk ?orig)) = ''SGVsbG8sQg==d29ybGQh''"
    unfolding m1_sorted by (simp add: joinContents_def)
  have "ingest decode parse ds st =
          Inr (tryDecodeAndDispatch decode parse (joinContents (sortChunks (map parseChunk ?orig)))
                 (st\<lparr>timeouts := timeouts st @ [(5000, ''m1'', Some 3)]\<rparr>))"
    using all dist _ _ assms(2) m1_not_inherited assms(1)
    by (rule complete_set_order_independent(2)) simp_all
  then have "ingest decode parse ds st = Inr (st\<lparr>timeouts := timeouts st @ [(5000, ''m1'', Some 3)]\<rparr>)"
    unfolding joined by (simp add: tryDecodeAndDispatch_atob_fails [OF m1_atob])
  moreover have "map part_index (sortChunks (map parseChunk ds)) = [Some 0, Some 1, Some 2]"
    unfolding sorted m1_sorted by simp
  moreover have "base64ToUtf8 decode ''SGVsbG8sQg==d29ybGQh'' = Inl InvalidCharacterError"
    by (simp add: base64ToUtf8_def m1_atob)
  ultimately show ?thesis using sorted joined by simp
qed

text \<open>
  Claim C3, as the code has it.  In every order of arrival the three chunks of
  \<^verbatim>\<open>m1\<close> are sorted to the indices 0, 1, 2 and joined to
  \<^verbatim>\<open>SGVsbG8sQg==d29ybGQh\<close>.  That text has padding in the middle, so \<^verbatim>\<open>atob\<close>
  throws: no record is dispatched, and all that is left of the message is its timer.
\<close>

theorem m1_scenario_is_dropped:
  assumes "mset ds = mset [''m1|1|3|Qg=='', ''m1|0|3|SGVsbG8s'', ''m1|2|3|d29ybGQh'']"
    and "messageCache st ''m1'' = None"
  shows "map part_index (sortChunks (map parseChunk ds)) = [Some 0, Some 1, Some 2]
       \<and> joinContents (sortChunks (map parseChunk ds)) = ''SGVsbG8sQg==d29ybGQh''
       \<and> base64ToUtf8 decode ''SGVsbG8sQg==d29ybGQh'' = Inl InvalidCharacterError
       \<and> ingest decode parse ds st = Inr (st\<lparr>timeouts := timeouts st @ [(5000, ''m1'', Some 3)]\<rparr>)"
  using assms by (rule m1_ingest)

theorem m1_scenario_is_dropped_witness:
  "ingest decode_ascii parse_hi [''m1|0|3|SGVsbG8s'', ''m1|2|3|d29ybGQh'', ''m1|1|3|Qg==''] initial_state
     = Inr (initial_state\<lparr>timeouts := [(5000, ''m1'', Some 3)]\<rparr>)"
proof -
  have a: "mset [''m1|0|3|SGVsbG8s'', ''m1|2|3|d29ybGQh'', ''m1|1|3|Qg=='']
         = mset [''m1|1|3|Qg=='', ''m1|0|3|SGVsbG8s'', ''m1|2|3|d29ybGQh'']" by simp
  have b: "messageCache initial_state ''m1'' = None" by (simp add: initial_state_def)
  have t: "timeouts initial_state = []" by (simp add: initial_state_def)
  show ?thesis
    using m1_scenario_is_dropped [OF a b, of decode_ascii parse_hi] unfolding t append_Nil by blast
qed

text \<open>In the order of arrival 1, 0, 2 the decoder fails and \<^verbatim>\<open>messageList\<close> stays empty.\<close>

theorem m1_scenario_yields_no_record:
  "base64ToUtf8 decode_ascii ''SGVsbG8sQg==d29ybGQh'' = Inl InvalidCharacterError
   \<and> ingest decode_ascii parse_hi [''m1|1|3|Qg=='', ''m1|0|3|SGVsbG8s'', ''m1|2|3|d29ybGQh''] initial_state
       = Inr (initial_state\<lparr>timeouts := [(5000, ''m1'', Some 3)]\<rparr>)
   \<and> messageList (initial_state\<lparr>timeouts := [(5000, ''m1'', Some 3)]\<rparr>) = []"
proof -
  have b: "messageCache initial_state ''m1'' = None" by (simp add: initial_state_def)
  have t: "timeouts initial_state = []" by (simp add: initial_state_def)
  have l: "messageList (initial_state\<lparr>timeouts := [(5000, ''m1'', Some 3)]\<rparr>) = []"
    by (simp add: initial_state_def)
  show ?thesis
    using m1_ingest [OF refl b, of decode_ascii parse_hi] l unfolding t append_Nil by blast
qed

subsection \<open>Chunks with an unknown number of parts\<close>

lemma sentinel_total_parts:
  "element (split_on CHR ''|'' data) 2 = Some ''???'' \<Longrightarrow> total_parts (parseChunk data) = Some (- 1)"
  by (simp add: parseChunk_def Let_def)

lemma element_example: "element (split_on CHR ''|'' ''m7|0|???|eyJ0'') 2 = Some ''???''"
  by (simp add: element_def)

text \<open>
  Claim C9.  A chunk whose third field is the token \<^verbatim>\<open>???\<close> is dropped when it
  arrives: the handler returns with the state unchanged, so nothing is stored for it,
  and taking it out of any sequence of stream messages leaves the outcome the same.
\<close>

theorem unknown_total_parts_dropped:
  assumes "element (split_on CHR ''|'' data) 2 = Some ''???''"
  shows "handleStreamMessage decode parse data st = Inr st
       \<and> ingest decode parse (before @ data # after) st = ingest decode parse (before @ after) st"
proof -
  have "handleStreamMessage decode parse data s = Inr s" for s
    using assms by (intro handleStreamMessage_unknown sentinel_total_parts)
  then show ?thesis by (simp add: ingest_append split: sum.splits)
qed

theorem unknown_total_parts_dropped_witness:
  "handleStreamMessage decode_ascii parse_hi ''m7|0|???|eyJ0'' initial_state = Inr initial_state
   \<and> ingest decode_ascii parse_hi ([''m7|0|2|eyJ0''] @ ''m7|0|???|eyJ0'' # [''m7|1|2|ZXh0'']) initial_state
       = ingest decode_ascii parse_hi ([''m7|0|2|eyJ0''] @ [''m7|1|2|ZXh0'']) initial_state"
  by (rule unknown_total_parts_dropped [OF element_example])

subsection \<open>What one call of the handler changes\<close>

lemma pushAndReconstruct_timeouts:
  "timeouts (pushAndReconstruct decode parse c stored st) = timeouts st"
  by (simp add: pushAndReconstruct_def Let_def tryDecodeAndDispatch_frame)

lemma pushAndReconstruct_other:
  "k \<noteq> message_id c \<Longrightarrow> messageCache (pushAndReconstruct decode parse c stored st) k = messageCache st k"
  by (simp add: pushAndReconstruct_def Let_def tryDecodeAndDispatch_frame)

lemma pushAndReconstruct_entry:
  "messageCache (pushAndReconstruct decode parse c stored st) (message_id c) =
     (if Some (int (length stored) + 1) = total_parts c then None else Some (stored @ [c]))"
  by (simp add: pushAndReconstruct_def Let_def tryDecodeAndDispatch_frame add.commute)

lemma handleStreamMessage_other:
  assumes "handleStreamMessage decode parse data st = Inr st'" and "k \<noteq> message_id (parseChunk data)"
  shows "messageCache st' k = messageCache st k"
  using assms
  by (auto simp: handleStreamMessage_def handleStreamMessage_try_def Let_def pushAndReconstruct_other
      split: if_splits option.splits)

lemma handleStreamMessage_timeouts:
  assumes "handleStreamMessage decode parse data st = Inr st'"
  shows "timeouts st' = timeouts st \<or>
         timeouts st' = timeouts st @ [(5000, message_id (parseChunk data), total_parts (parseChunk data))]"
  using assms
  by (auto simp: handleStreamMessage_def handleStreamMessage_try_def Let_def pushAndReconstruct_timeouts
      split: if_splits option.splits)

lemma own_keys_only_initial: "own_keys_only initial_state"
  by (simp add: own_keys_only_def initial_state_def)

lemma own_keys_only_handleStreamMessage:
  assumes "own_keys_only st" and "handleStreamMessage decode parse data st = Inr st'"
  shows "own_keys_only st'"
proof (cases "message_id (parseChunk data) \<in> set Object_prototype_keys")
  case True
  then have "messageCache st (message_id (parseChunk data)) = None"
    using assms(1) by (simp add: own_keys_only_def)
  then have "handleStreamMessage decode parse data st = Inr st"
    using True by (rule handleStreamMessage_inherited)
  then show ?thesis using assms by simp
next
  case False
  then have "\<forall>k \<in> set Object_prototype_keys. messageCache st' k = messageCache st k"
    using handleStreamMessage_other [OF assms(2)] by metis
  then show ?thesis using assms(1) by (simp add: own_keys_only_def)
qed

text \<open>The callbacks that are due, run in order.\<close>

lemma timeoutCallback_cache:
  "messageCache (timeoutCallback mid n st) k = None \<or>
   messageCache (timeoutCallback mid n st) k = messageCache st k"
  by (simp add: timeoutCallback_def)

lemma timeoutCallback_frame:
  "timeouts (timeoutCallback mid n st) = timeouts st"
  "messageList (timeoutCallback mid n st) = messageList st"
  "currentInProgressMessage (timeoutCallback mid n st) = currentInProgressMessage st"
  "turnIdCounter (timeoutCallback mid n st) = turnIdCounter st"
  by (simp_all add: timeoutCallback_def)

lemma callbacks_cache:
  "messageCache (foldl (\<lambda>s t. timeoutCallback (fst (snd t)) (snd (snd t)) s) st ts) k = None \<or>
   messageCache (foldl (\<lambda>s t. timeoutCallback (fst (snd t)) (snd (snd t)) s) st ts) k = messageCache st k"
proof (induction ts arbitrary: st)
  case Nil
  show ?case by simp
next
  case (Cons t ts)
  show ?case
    using Cons.IH [of "timeoutCallback (fst (snd t)) (snd (snd t)) st"]
      timeoutCallback_cache [of "fst (snd t)" "snd (snd t)" st k]
    by auto
qed

lemma callbacks_timeouts:
  "timeouts (foldl (\<lambda>s t. timeoutCallback (fst (snd t)) (snd (snd t)) s) st ts) = timeouts st"
  by (induction ts arbitrary: st) (simp_all add: timeoutCallback_frame)

lemma callbacks_evict:
  assumes "(r, m, n) \<in> set ts"
    and "\<forall>chunks. messageCache st m = Some chunks \<longrightarrow> Some (int (length chunks)) \<noteq> n"
  shows "messageCache (foldl (\<lambda>s t. timeoutCallback (fst (snd t)) (snd (snd t)) s) st ts) m = None"
  using assms
proof (induction ts arbitrary: st)
  case Nil
  then show ?case by simp
next
  case (Cons t ts)
  let ?st1 = "timeoutCallback (fst (snd t)) (snd (snd t)) st"
  show ?case
  proof (cases "t = (r, m, n)")
    case True
    then have "messageCache ?st1 m = None"
      using Cons.prems(2) by (auto simp: timeoutCallback_def split: option.splits)
    then show ?thesis using callbacks_cache [of ?st1 ts m] by auto
  next
    case False
    then have "(r, m, n) \<in> set ts" using Cons.prems(1) by auto
    moreover have "\<forall>chunks. messageCache ?st1 m = Some chunks \<longrightarrow> Some (int (length chunks)) \<noteq> n"
      using Cons.prems(2) timeoutCallback_cache [of "fst (snd t)" "snd (snd t)" st m] by auto
    ultimately show ?thesis using Cons.IH [of ?st1] by simp
  qed
qed

lemma elapse_timeouts:
  "timeouts (elapse d st) = map (\<lambda>t. (fst t - d, snd t)) (filter (\<lambda>t. \<not> isDue d t) (timeouts st))"
  by (simp add: elapse_def callbacks_timeouts)

lemma elapse_cache:
  "messageCache (elapse d st) k = None \<or> messageCache (elapse d st) k = messageCache st k"
  using callbacks_cache [of "st\<lparr>timeouts := map (\<lambda>t. (fst t - d, snd t)) (filter (\<lambda>t. \<not> isDue d t) (timeouts st))\<rparr>"
      "filter (isDue d) (timeouts st)" k]
  by (simp add: elapse_def)

lemma elapse_evicts:
  assumes "(r, m, n) \<in> set (timeouts st)" and "r \<le> d"
    and "\<forall>chunks. messageCache st m = Some chunks \<longrightarrow> Some (int (length chunks)) \<noteq> n"
  shows "messageCache (elapse d st) m = None"
proof -
  have "(r, m, n) \<in> set (filter (isDue d) (timeouts st))"
    using assms(1,2) by (simp add: isDue_def)
  then show ?thesis
    unfolding elapse_def using assms(3) by (intro callbacks_evict [where r = r and n = n]) simp_all
qed

lemma elapse_keeps_timer:
  assumes "(r, m, n) \<in> set (timeouts st)" and "d < r"
  shows "(r - d, m, n) \<in> set (timeouts (elapse d st))"
proof -
  have "(r, m, n) \<in> set (filter (\<lambda>t. \<not> isDue d t) (timeouts st))"
    using assms by (simp add: isDue_def)
  then have "(\<lambda>t. (fst t - d, snd t)) (r, m, n) \<in> set (timeouts (elapse d st))"
    unfolding elapse_timeouts set_map by (rule imageI)
  then show ?thesis by simp
qed

lemma own_keys_only_elapse: "own_keys_only st \<Longrightarrow> own_keys_only (elapse d st)"
  using elapse_cache [of d st] by (fastforce simp: own_keys_only_def)

lemma run_keeps_timer:
  assumes "(r, m, n) \<in> set (timeouts st)" and "run decode parse evs st = Inr st'" and "waited evs < r"
  shows "(r - waited evs, m, n) \<in> set (timeouts st')"
  using assms
proof (induction evs arbitrary: st r)
  case Nil
  then show ?case by simp
next
  case (Cons ev evs)
  show ?case
  proof (cases ev)
    case (StreamMessage data)
    obtain st1 where st1: "handleStreamMessage decode parse data st = Inr st1"
      using handleStreamMessage_returns by blast
    then have "(r, m, n) \<in> set (timeouts st1)"
      using handleStreamMessage_timeouts [OF st1] Cons.prems(1) by auto
    then show ?thesis
      using Cons.IH [of r st1] Cons.prems(2,3) StreamMessage st1 by simp
  next
    case (Elapse d)
    then have d: "d < r" "waited evs < r - d" using Cons.prems(3) by simp_all
    have "(r - d, m, n) \<in> set (timeouts (elapse d st))"
      using Cons.prems(1) d(1) by (rule elapse_keeps_timer)
    then have "(r - d - waited evs, m, n) \<in> set (timeouts st')"
      using Cons.prems(2) Elapse d(2) by (intro Cons.IH [of "r - d" "elapse d st"]) simp_all
    then show ?thesis using Elapse by (simp add: diff_diff_left)
  qed
qed

lemma own_keys_only_run:
  assumes "own_keys_only st" and "run decode parse evs st = Inr st'"
  shows "own_keys_only st'"
  using assms
proof (induction evs arbitrary: st)
  case Nil
  then show ?case by simp
next
  case (Cons ev evs)
  show ?case
  proof (cases ev)
    case (StreamMessage data)
    obtain st1 where st1: "handleStreamMessage decode parse data st = Inr st1"
      using handleStreamMessage_returns by blast
    then show ?thesis
      using Cons StreamMessage own_keys_only_handleStreamMessage [OF Cons.prems(1) st1] by simp
  next
    case (Elapse d)
    then show ?thesis using Cons own_keys_only_elapse [OF Cons.prems(1), of d] by simp
  qed
qed

lemma first_chunk_opens_entry:
  assumes "messageCache st m = None" and "m \<notin> set Object_prototype_keys"
    and "message_id (parseChunk data) = m" and "total_parts (parseChunk data) \<noteq> Some (- 1)"
  shows "\<exists>st'. handleStreamMessage decode parse data st = Inr st'
           \<and> timeouts st' = timeouts st @ [(5000, m, total_parts (parseChunk data))]
           \<and> (total_parts (parseChunk data) \<noteq> Some 1 \<longrightarrow> messageCache st' m = Some [parseChunk data])"
proof -
  let ?st0 = "st\<lparr>messageCache := (messageCache st)(m \<mapsto> []),
                 timeouts := timeouts st @ [(5000, m, total_parts (parseChunk data))]\<rparr>"
  let ?st' = "pushAndReconstruct decode parse (parseChunk data) [] ?st0"
  have "handleStreamMessage decode parse data st = Inr ?st'"
    using handleStreamMessage_first [of data st decode parse] assms by simp
  moreover have "timeouts ?st' = timeouts st @ [(5000, m, total_parts (parseChunk data))]"
    by (simp add: pushAndReconstruct_timeouts)
  moreover have "total_parts (parseChunk data) \<noteq> Some 1 \<longrightarrow> messageCache ?st' m = Some [parseChunk data]"
    using pushAndReconstruct_entry [of decode parse "parseChunk data" "[]" ?st0] assms(3) by auto
  ultimately show ?thesis by blast
qed

lemma entry_opened_by:
  assumes "messageCache st m = None" and "handleStreamMessage decode parse data st = Inr st1"
    and "messageCache st1 m = Some chunks"
  shows "message_id (parseChunk data) = m \<and> m \<notin> set Object_prototype_keys
         \<and> (5000, m, total_parts (parseChunk data)) \<in> set (timeouts st1)"
proof -
  have id: "message_id (parseChunk data) = m"
    using handleStreamMessage_other [OF assms(2), of m] assms(1,3) by auto
  have unknown: "total_parts (parseChunk data) \<noteq> Some (- 1)"
    using handleStreamMessage_unknown [of data decode parse st] assms by auto
  have own: "m \<notin> set Object_prototype_keys"
    using handleStreamMessage_inherited [of st data decode parse] assms id by auto
  obtain st' where "handleStreamMessage decode parse data st = Inr st'"
    and "timeouts st' = timeouts st @ [(5000, m, total_parts (parseChunk data))]"
    using first_chunk_opens_entry [OF assms(1) own id unknown] by blast
  then show ?thesis using id own assms(2) by simp
qed

lemma handle_first_pending:
  assumes "parseChunk data = c" and "messageCache st (message_id c) = None"
    and "message_id c \<notin> set Object_prototype_keys"
    and "total_parts c \<noteq> Some (- 1)" and "total_parts c \<noteq> Some 1"
  shows "handleStreamMessage decode parse data st =
           Inr (st\<lparr>messageCache := (messageCache st)(message_id c \<mapsto> [c]),
                   timeouts := timeouts st @ [(5000, message_id c, total_parts c)]\<rparr>)"
proof -
  have "Some (int (length ([] :: TextDataChunk list)) + 1) \<noteq> total_parts c"
    using assms(5) by auto
  then show ?thesis
    using handleStreamMessage_first [of data st decode parse] assms(1-4)
    by (simp add: pushAndReconstruct_pending)
qed

lemma handle_next_pending:
  assumes "parseChunk data = c" and "messageCache st (message_id c) = Some stored"
    and "total_parts c \<noteq> Some (- 1)" and "Some (int (length stored) + 1) \<noteq> total_parts c"
  shows "handleStreamMessage decode parse data st =
           Inr (st\<lparr>messageCache := (messageCache st)(message_id c \<mapsto> stored @ [c])\<rparr>)"
  using handleStreamMessage_next [of data st stored decode parse] assms
  by (simp add: pushAndReconstruct_pending)

lemma handle_completing:
  assumes "parseChunk data = c" and "messageCache st (message_id c) = Some stored"
    and "total_parts c \<noteq> Some (- 1)" and "Some (int (length stored) + 1) = total_parts c"
  shows "handleStreamMessage decode parse data st =
           Inr ((tryDecodeAndDispatch decode parse (joinContents (sortChunks (stored @ [c]))) st)
                  \<lparr>messageCache := (messageCache st)(message_id c := None)\<rparr>)"
  using handleStreamMessage_next [of data st stored decode parse] assms
  by (simp add: pushAndReconstruct_complete)

lemma handle_single:
  assumes "parseChunk data = c" and "messageCache st (message_id c) = None"
    and "message_id c \<notin> set Object_prototype_keys" and "total_parts c = Some 1"
  shows "handleStreamMessage decode parse data st =
           Inr (tryDecodeAndDispatch decode parse (joinContents [c])
                  (st\<lparr>timeouts := timeouts st @ [(5000, message_id c, Some 1)]\<rparr>))"
proof -
  have "ingest decode parse [data] st =
          Inr (tryDecodeAndDispatch decode parse (joinContents (sortChunks (map parseChunk [data])))
                 (st\<lparr>timeouts := timeouts st @ [(5000, message_id c, Some 1)]\<rparr>))"
    using assms by (intro ingest_complete_set) simp_all
  then show ?thesis
    using assms(1) by (simp add: sortChunks_def split: sum.splits)
qed

lemma m2_chunk:
  "parseChunk ''m2|0|2|AAAA'' = \<lparr>message_id = ''m2'', part_index = Some 0, total_parts = Some 2, content = Some ''AAAA''\<rparr>"
  by (simp add: parse_simps)

lemma m2_not_inherited: "''m2'' \<notin> set Object_prototype_keys"
  by (simp add: Object_prototype_keys_def)

text \<open>
  The callback of a first chunk, 5000 ms later: whatever stream messages have arrived in
  the meantime, an entry that the message has at that moment, with fewer chunks than
  the first chunk declared, is removed.
\<close>

lemma incomplete_entry_removed_at_deadline:
  assumes "messageCache st m = None"
    and "handleStreamMessage decode parse first st = Inr st1"
    and "messageCache st1 m = Some [parseChunk first]"
    and "total_parts (parseChunk first) = Some n"
    and "run decode parse evs st1 = Inr st2" and "waited evs < 5000" and "5000 \<le> waited evs + d"
    and "messageCache st2 m = Some chunks" and "int (length chunks) < n"
  shows "messageCache (elapse d st2) m = None"
proof -
  have opened: "(5000, m, Some n) \<in> set (timeouts st1)"
    using entry_opened_by [OF assms(1,2,3)] assms(4) by simp
  have "(5000 - waited evs, m, Some n) \<in> set (timeouts st2)"
    using opened assms(5,6) by (rule run_keeps_timer)
  moreover have "5000 - waited evs \<le> d" using assms(7) by simp
  moreover have "\<forall>cs. messageCache st2 m = Some cs \<longrightarrow> Some (int (length cs)) \<noteq> Some n"
    using assms(8,9) by auto
  ultimately show ?thesis by (rule elapse_evicts)
qed

text \<open>An entry is removed by no callback but one scheduled for its own
  \<^verbatim>\<open>message_id\<close>, and not before that callback is due.\<close>

lemma callbacks_other:
  assumes "\<forall>t \<in> set ts. fst (snd t) \<noteq> m"
  shows "messageCache (foldl (\<lambda>s t. timeoutCallback (fst (snd t)) (snd (snd t)) s) st ts) m = messageCache st m"
  using assms by (induction ts arbitrary: st) (auto simp: timeoutCallback_def)

lemma elapse_keeps_entry:
  assumes "\<forall>t \<in> set (timeouts st). fst (snd t) = m \<longrightarrow> d < fst t"
  shows "messageCache (elapse d st) m = messageCache st m"
proof -
  have "\<forall>t \<in> set (filter (isDue d) (timeouts st)). fst (snd t) \<noteq> m"
    using assms by (auto simp: isDue_def)
  then show ?thesis
    unfolding elapse_def by (simp add: callbacks_other)
qed

lemma elapse_timers_of:
  assumes "\<forall>t \<in> set (timeouts st). fst (snd t) = m \<longrightarrow> r \<le> fst t"
  shows "\<forall>t \<in> set (timeouts (elapse d st)). fst (snd t) = m \<longrightarrow> r - d \<le> fst t"
  using assms unfolding elapse_timeouts by (auto intro: diff_le_mono)

lemma run_keeps_entry:
  assumes "\<forall>t \<in> set (timeouts st). fst (snd t) = m \<longrightarrow> r \<le> fst t"
    and "\<forall>data. StreamMessage data \<in> set evs \<longrightarrow> message_id (parseChunk data) \<noteq> m"
    and "run decode parse evs st = Inr st'" and "waited evs < r"
  shows "messageCache st' m = messageCache st m
       \<and> (\<forall>t \<in> set (timeouts st'). fst (snd t) = m \<longrightarrow> r - waited evs \<le> fst t)"
  using assms
proof (induction evs arbitrary: st r)
  case Nil
  then show ?case by simp
next
  case (Cons ev evs)
  have rest: "\<forall>data. StreamMessage data \<in> set evs \<longrightarrow> message_id (parseChunk data) \<noteq> m"
    using Cons.prems(2) by simp
  show ?case
  proof (cases ev)
    case (StreamMessage data)
    obtain st1 where st1: "handleStreamMessage decode parse data st = Inr st1"
      using handleStreamMessage_returns by blast
    have other: "message_id (parseChunk data) \<noteq> m"
      using Cons.prems(2) StreamMessage by simp
    have cache: "messageCache st1 m = messageCache st m"
      using handleStreamMessage_other [OF st1, of m] other by simp
    have timers: "\<forall>t \<in> set (timeouts st1). fst (snd t) = m \<longrightarrow> r \<le> fst t"
      using handleStreamMessage_timeouts [OF st1] Cons.prems(1) other by auto
    have "run decode parse evs st1 = Inr st'" "waited evs < r"
      using Cons.prems(3,4) StreamMessage st1 by simp_all
    then show ?thesis
      using Cons.IH [OF timers rest] cache StreamMessage by simp
  next
    case (Elapse d)
    then have d: "d < r" "waited evs < r - d" using Cons.prems(4) by simp_all
    have cache: "messageCache (elapse d st) m = messageCache st m"
      using Cons.prems(1) d(1) by (intro elapse_keeps_entry) auto
    have timers: "\<forall>t \<in> set (timeouts (elapse d st)). fst (snd t) = m \<longrightarrow> r - d \<le> fst t"
      using Cons.prems(1) by (rule elapse_timers_of)
    have "run decode parse evs (elapse d st) = Inr st'"
      using Cons.prems(3) Elapse by simp
    then show ?thesis
      using Cons.IH [OF timers rest _ d(2)] cache Elapse by (simp add: diff_diff_left)
  qed
qed

text \<open>
  A message with no callback pending when its first chunk arrives, and no further chunk:
  its entry stays for 5000 ms and is removed then.
\<close>

lemma entry_lives_5000_ms:
  assumes "\<forall>t \<in> set (timeouts st). fst (snd t) \<noteq> m"
    and "messageCache st m = None"
    and "handleStreamMessage decode parse first st = Inr st1"
    and "messageCache st1 m = Some [parseChunk first]"
    and "total_parts (parseChunk first) \<noteq> Some 1"
    and "\<forall>data. StreamMessage data \<in> set evs \<longrightarrow> message_id (parseChunk data) \<noteq> m"
    and "run decode parse evs st1 = Inr st2" and "waited evs < 5000"
  shows "messageCache st2 m = Some [parseChunk first]"
    and "5000 \<le> waited evs + d \<Longrightarrow> messageCache (elapse d st2) m = None"
proof -
  have opened: "(5000, m, total_parts (parseChunk first)) \<in> set (timeouts st1)"
    "message_id (parseChunk first) = m"
    using entry_opened_by [OF assms(2,3,4)] by simp_all
  have "\<forall>t \<in> set (timeouts st1). fst (snd t) = m \<longrightarrow> 5000 \<le> fst t"
    using handleStreamMessage_timeouts [OF assms(3)] assms(1) by auto
  then have "messageCache st2 m = messageCache st1 m"
    using run_keeps_entry [OF _ assms(6,7,8)] by simp
  then show kept: "messageCache st2 m = Some [parseChunk first]" using assms(4) by simp
  assume late: "5000 \<le> waited evs + d"
  have "(5000 - waited evs, m, total_parts (parseChunk first)) \<in> set (timeouts st2)"
    using opened(1) assms(7,8) by (rule run_keeps_timer)
  moreover have "5000 - waited evs \<le> d" using late by simp
  moreover have "\<forall>cs. messageCache st2 m = Some cs \<longrightarrow> Some (int (length cs)) \<noteq> total_parts (parseChunk first)"
    using kept assms(5) by auto
  ultimately show "messageCache (elapse d st2) m = None" by (rule elapse_evicts)
qed

subsection \<open>A chunk for a message that is no longer pending\<close>

lemma hi_decoded:
  "tryDecodeAndDispatch decode_ascii parse_hi ''eyJ0ZXh0IjoiaGkiLCJpc19maW5hbCI6dHJ1ZX0='' st =
     st\<lparr>turnIdCounter := turnIdCounter st + 1,
        messageList := messageList st @ [\<lparr>turn_id = turnIdCounter st, uid = 1, text' = js ''hi'', status = 1, timestamp = None\<rparr>],
        currentInProgressMessage := None\<rparr>"
proof -
  have a: "atob ''eyJ0ZXh0IjoiaGkiLCJpc19maW5hbCI6dHJ1ZX0='' =
     Inr (map char_of [123, 34, 116, 101, 120, 116, 34, 58, 34, 104, 105, 34, 44, 34, 105, 115,
            95, 102, 105, 110, 97, 108, 34, 58, 116, 114, 117, 101, 125 :: nat])"
    by (simp add: atob_def strip_padding_def isAsciiWhitespace_def base64_value_def)
  have b: "handleTenMessage hi_record st = Inr (st\<lparr>turnIdCounter := turnIdCounter st + 1,
        messageList := messageList st @ [\<lparr>turn_id = turnIdCounter st, uid = 1, text' = js ''hi'', status = 1, timestamp = None\<rparr>],
        currentInProgressMessage := None\<rparr>)"
    by (simp add: handleTenMessage_def hi_record_def js_def trim_def isWhiteSpace_def)
  show ?thesis
    unfolding tryDecodeAndDispatch_def decodeAndDispatch_def base64ToUtf8_def a
    by (simp add: decode_ascii_def parse_hi_def b js_def)
qed

lemma hi_chunks:
  "parseChunk hi_part0 = \<lparr>message_id = ''m1'', part_index = Some 0, total_parts = Some 2, content = Some ''eyJ0ZXh0IjoiaGkiLCJp''\<rparr>"
  "parseChunk hi_part1 = \<lparr>message_id = ''m1'', part_index = Some 1, total_parts = Some 2, content = Some ''c19maW5hbCI6dHJ1ZX0=''\<rparr>"
  "parseChunk ''m1|0|1|eyJ0ZXh0IjoiaGkiLCJpc19maW5hbCI6dHJ1ZX0='' = \<lparr>message_id = ''m1'', part_index = Some 0, total_parts = Some 1, content = Some ''eyJ0ZXh0IjoiaGkiLCJpc19maW5hbCI6dHJ1ZX0=''\<rparr>"
  "parseChunk ''constructor|0|1|eyJ0ZXh0IjoiaGkiLCJpc19maW5hbCI6dHJ1ZX0='' = \<lparr>message_id = ''constructor'', part_index = Some 0, total_parts = Some 1, content = Some ''eyJ0ZXh0IjoiaGkiLCJpc19maW5hbCI6dHJ1ZX0=''\<rparr>"
  by (simp_all add: parse_simps hi_part0_def hi_part1_def)

lemma hi_ingest: "ingest decode_ascii parse_hi [hi_part0, hi_part1] initial_state = Inr hi_delivered"
proof -
  have "ingest decode_ascii parse_hi [hi_part0, hi_part1] initial_state =
      Inr (tryDecodeAndDispatch decode_ascii parse_hi (joinContents (sortChunks (map parseChunk [hi_part0, hi_part1])))
             (initial_state\<lparr>timeouts := timeouts initial_state @ [(5000, ''m1'', Some 2)]\<rparr>))"
    by (rule ingest_complete_set) (simp_all add: hi_chunks m1_not_inherited initial_state_def)
  moreover have "joinContents (sortChunks (map parseChunk [hi_part0, hi_part1])) =
      ''eyJ0ZXh0IjoiaGkiLCJpc19maW5hbCI6dHJ1ZX0=''"
    by (simp add: hi_chunks sortChunks_def comesBefore_def compareFn_def joinContents_def)
  ultimately show ?thesis
    by (simp add: hi_decoded hi_delivered_def initial_state_def)
qed



lemma hi_first:
  "handleStreamMessage decode parse hi_part0 initial_state =
     Inr (initial_state\<lparr>messageCache := (messageCache initial_state)(''m1'' \<mapsto> [parseChunk hi_part0]),
            timeouts := [(5000, ''m1'', Some 2)]\<rparr>)"
  by (subst handle_first_pending [OF hi_chunks(1)])
     (simp_all add: m1_not_inherited initial_state_def hi_chunks)

lemma hi_second:
  "handleStreamMessage decode_ascii parse_hi hi_part1
     (initial_state\<lparr>messageCache := (messageCache initial_state)(''m1'' \<mapsto> [parseChunk hi_part0]),
            timeouts := [(5000, ''m1'', Some 2)]\<rparr>) = Inr hi_delivered"
proof -
  obtain st' where st': "handleStreamMessage decode_ascii parse_hi hi_part1
     (initial_state\<lparr>messageCache := (messageCache initial_state)(''m1'' \<mapsto> [parseChunk hi_part0]),
            timeouts := [(5000, ''m1'', Some 2)]\<rparr>) = Inr st'"
    using handleStreamMessage_returns by blast
  then show ?thesis using hi_ingest by (simp add: hi_first)
qed





subsection \<open>A callback that outlives its entry\<close>

text \<open>
  The handle that \<^verbatim>\<open>setTimeout\<close> returns is dropped: the callback of an entry stays
  scheduled when the message completes and when the entry is removed, and it finds
  what it removes by \<^verbatim>\<open>message_id\<close> alone.  The steps of the run below: the two
  chunks of \<^verbatim>\<open>m1\<close> arrive and the record is dispatched; 4000 ms later the first
  chunk of \<^verbatim>\<open>m1\<close> arrives again, and a first chunk of \<^verbatim>\<open>m2\<close>; then 1000 ms,
  500 ms, the second chunk of \<^verbatim>\<open>m1\<close>, and 3500 ms.
\<close>

lemma reuse_states:
  "elapse 4000 hi_delivered = hi_delivered\<lparr>timeouts := [(1000, ''m1'', Some 2)]\<rparr>"
  "handleStreamMessage decode parse hi_part0 (hi_delivered\<lparr>timeouts := [(1000, ''m1'', Some 2)]\<rparr>) =
     Inr (hi_delivered\<lparr>messageCache := [''m1'' \<mapsto> [parseChunk hi_part0]],
            timeouts := [(1000, ''m1'', Some 2), (5000, ''m1'', Some 2)]\<rparr>)"
  "handleStreamMessage decode parse ''m2|0|2|AAAA''
     (hi_delivered\<lparr>messageCache := [''m1'' \<mapsto> [parseChunk hi_part0]],
            timeouts := [(1000, ''m1'', Some 2), (5000, ''m1'', Some 2)]\<rparr>) =
     Inr (hi_delivered\<lparr>messageCache := [''m1'' \<mapsto> [parseChunk hi_part0], ''m2'' \<mapsto> [parseChunk ''m2|0|2|AAAA'']],
            timeouts := [(1000, ''m1'', Some 2), (5000, ''m1'', Some 2), (5000, ''m2'', Some 2)]\<rparr>)"
  "elapse 1000 (hi_delivered\<lparr>messageCache := [''m1'' \<mapsto> [parseChunk hi_part0], ''m2'' \<mapsto> [parseChunk ''m2|0|2|AAAA'']],
            timeouts := [(1000, ''m1'', Some 2), (5000, ''m1'', Some 2), (5000, ''m2'', Some 2)]\<rparr>) =
     hi_delivered\<lparr>messageCache := [''m2'' \<mapsto> [parseChunk ''m2|0|2|AAAA'']],
            timeouts := [(4000, ''m1'', Some 2), (4000, ''m2'', Some 2)]\<rparr>"
  "elapse 500 (hi_delivered\<lparr>messageCache := [''m2'' \<mapsto> [parseChunk ''m2|0|2|AAAA'']],
            timeouts := [(4000, ''m1'', Some 2), (4000, ''m2'', Some 2)]\<rparr>) =
     hi_delivered\<lparr>messageCache := [''m2'' \<mapsto> [parseChunk ''m2|0|2|AAAA'']],
            timeouts := [(3500, ''m1'', Some 2), (3500, ''m2'', Some 2)]\<rparr>"
  "handleStreamMessage decode parse hi_part1
     (hi_delivered\<lparr>messageCache := [''m2'' \<mapsto> [parseChunk ''m2|0|2|AAAA'']],
            timeouts := [(3500, ''m1'', Some 2), (3500, ''m2'', Some 2)]\<rparr>) =
     Inr (hi_delivered\<lparr>messageCache := [''m2'' \<mapsto> [parseChunk ''m2|0|2|AAAA''], ''m1'' \<mapsto> [parseChunk hi_part1]],
            timeouts := [(3500, ''m1'', Some 2), (3500, ''m2'', Some 2), (5000, ''m1'', Some 2)]\<rparr>)"
  "elapse 3500 (hi_delivered\<lparr>messageCache := [''m2'' \<mapsto> [parseChunk ''m2|0|2|AAAA''], ''m1'' \<mapsto> [parseChunk hi_part1]],
            timeouts := [(3500, ''m1'', Some 2), (3500, ''m2'', Some 2), (5000, ''m1'', Some 2)]\<rparr>) =
     hi_delivered\<lparr>messageCache := Map.empty, timeouts := [(1500, ''m1'', Some 2)]\<rparr>"
proof -
  show "elapse 4000 hi_delivered = hi_delivered\<lparr>timeouts := [(1000, ''m1'', Some 2)]\<rparr>"
    by (simp add: elapse_def isDue_def hi_delivered_def)
  show "handleStreamMessage decode parse hi_part0 (hi_delivered\<lparr>timeouts := [(1000, ''m1'', Some 2)]\<rparr>) =
     Inr (hi_delivered\<lparr>messageCache := [''m1'' \<mapsto> [parseChunk hi_part0]],
            timeouts := [(1000, ''m1'', Some 2), (5000, ''m1'', Some 2)]\<rparr>)"
    by (subst handle_first_pending [OF hi_chunks(1)])
       (simp_all add: m1_not_inherited hi_delivered_def initial_state_def hi_chunks)
  show "handleStreamMessage decode parse ''m2|0|2|AAAA''
     (hi_delivered\<lparr>messageCache := [''m1'' \<mapsto> [parseChunk hi_part0]],
            timeouts := [(1000, ''m1'', Some 2), (5000, ''m1'', Some 2)]\<rparr>) =
     Inr (hi_delivered\<lparr>messageCache := [''m1'' \<mapsto> [parseChunk hi_part0], ''m2'' \<mapsto> [parseChunk ''m2|0|2|AAAA'']],
            timeouts := [(1000, ''m1'', Some 2), (5000, ''m1'', Some 2), (5000, ''m2'', Some 2)]\<rparr>)"
    by (subst handle_first_pending [OF m2_chunk])
       (simp_all add: m2_not_inherited hi_delivered_def initial_state_def m2_chunk)
  show "elapse 1000 (hi_delivered\<lparr>messageCache := [''m1'' \<mapsto> [parseChunk hi_part0], ''m2'' \<mapsto> [parseChunk ''m2|0|2|AAAA'']],
            timeouts := [(1000, ''m1'', Some 2), (5000, ''m1'', Some 2), (5000, ''m2'', Some 2)]\<rparr>) =
     hi_delivered\<lparr>messageCache := [''m2'' \<mapsto> [parseChunk ''m2|0|2|AAAA'']],
            timeouts := [(4000, ''m1'', Some 2), (4000, ''m2'', Some 2)]\<rparr>"
    by (simp add: elapse_def isDue_def timeoutCallback_def fun_eq_iff)
  show "elapse 500 (hi_delivered\<lparr>messageCache := [''m2'' \<mapsto> [parseChunk ''m2|0|2|AAAA'']],
            timeouts := [(4000, ''m1'', Some 2), (4000, ''m2'', Some 2)]\<rparr>) =
     hi_delivered\<lparr>messageCache := [''m2'' \<mapsto> [parseChunk ''m2|0|2|AAAA'']],
            timeouts := [(3500, ''m1'', Some 2), (3500, ''m2'', Some 2)]\<rparr>"
    by (simp add: elapse_def isDue_def)
  show "handleStreamMessage decode parse hi_part1
     (hi_delivered\<lparr>messageCache := [''m2'' \<mapsto> [parseChunk ''m2|0|2|AAAA'']],
            timeouts := [(3500, ''m1'', Some 2), (3500, ''m2'', Some 2)]\<rparr>) =
     Inr (hi_delivered\<lparr>messageCache := [''m2'' \<mapsto> [parseChunk ''m2|0|2|AAAA''], ''m1'' \<mapsto> [parseChunk hi_part1]],
            timeouts := [(3500, ''m1'', Some 2), (3500, ''m2'', Some 2), (5000, ''m1'', Some 2)]\<rparr>)"
    by (subst handle_first_pending [OF hi_chunks(2)])
       (simp_all add: m1_not_inherited hi_delivered_def initial_state_def hi_chunks)
  show "elapse 3500 (hi_delivered\<lparr>messageCache := [''m2'' \<mapsto> [parseChunk ''m2|0|2|AAAA''], ''m1'' \<mapsto> [parseChunk hi_part1]],
            timeouts := [(3500, ''m1'', Some 2), (3500, ''m2'', Some 2), (5000, ''m1'', Some 2)]\<rparr>) =
     hi_delivered\<lparr>messageCache := Map.empty, timeouts := [(1500, ''m1'', Some 2)]\<rparr>"
    by (simp add: elapse_def isDue_def timeoutCallback_def fun_eq_iff)
qed

text \<open>
  Claim C4, which the code breaks for a \<^verbatim>\<open>message_id\<close> that is used again while a
  callback scheduled for it is pending.  On a fresh hook the two chunks of \<^verbatim>\<open>m1\<close>
  arrive and the record is dispatched; the callback of that entry stays scheduled.
  4000 ms later the first chunk of \<^verbatim>\<open>m1\<close> arrives again and opens an entry with a
  callback of its own, and so does a first chunk of \<^verbatim>\<open>m2\<close>.  After 1000 ms more
  the callback of the completed message runs: the entry of \<^verbatim>\<open>m1\<close>, opened
  1000 ms before, is removed (the entry of \<^verbatim>\<open>m2\<close> stays).  The second chunk of
  \<^verbatim>\<open>m1\<close>, 500 ms later, is therefore stored alone in one more entry, and that entry
  is removed 3500 ms after it was opened, by the callback of the entry removed before
  it, while its own callback has 1500 ms left.  No second record is dispatched.  On
  a hook with no callback pending, the same two chunks 1500 ms apart are reassembled
  and dispatched.
\<close>

theorem stale_callback_evicts_new_entry:
  "run decode_ascii parse_hi
     [StreamMessage hi_part0, StreamMessage hi_part1, Elapse 4000,
      StreamMessage hi_part0, StreamMessage ''m2|0|2|AAAA''] initial_state =
     Inr (hi_delivered\<lparr>messageCache := [''m1'' \<mapsto> [parseChunk hi_part0], ''m2'' \<mapsto> [parseChunk ''m2|0|2|AAAA'']],
            timeouts := [(1000, ''m1'', Some 2), (5000, ''m1'', Some 2), (5000, ''m2'', Some 2)]\<rparr>)
   \<and> run decode_ascii parse_hi
       [StreamMessage hi_part0, StreamMessage hi_part1, Elapse 4000,
        StreamMessage hi_part0, StreamMessage ''m2|0|2|AAAA'', Elapse 1000] initial_state =
       Inr (hi_delivered\<lparr>messageCache := [''m2'' \<mapsto> [parseChunk ''m2|0|2|AAAA'']],
              timeouts := [(4000, ''m1'', Some 2), (4000, ''m2'', Some 2)]\<rparr>)
   \<and> run decode_ascii parse_hi
       [StreamMessage hi_part0, StreamMessage hi_part1, Elapse 4000,
        StreamMessage hi_part0, StreamMessage ''m2|0|2|AAAA'', Elapse 1000,
        Elapse 500, StreamMessage hi_part1] initial_state =
       Inr (hi_delivered\<lparr>messageCache := [''m2'' \<mapsto> [parseChunk ''m2|0|2|AAAA''], ''m1'' \<mapsto> [parseChunk hi_part1]],
              timeouts := [(3500, ''m1'', Some 2), (3500, ''m2'', Some 2), (5000, ''m1'', Some 2)]\<rparr>)
   \<and> run decode_ascii parse_hi
       [StreamMessage hi_part0, StreamMessage hi_part1, Elapse 4000,
        StreamMessage hi_part0, StreamMessage ''m2|0|2|AAAA'', Elapse 1000,
        Elapse 500, StreamMessage hi_part1, Elapse 3500] initial_state =
       Inr (hi_delivered\<lparr>messageCache := Map.empty, timeouts := [(1500, ''m1'', Some 2)]\<rparr>)
   \<and> messageList hi_delivered = [\<lparr>turn_id = 0, uid = 1, text' = js ''hi'', status = 1, timestamp = None\<rparr>]
   \<and> run decode_ascii parse_hi
       [StreamMessage hi_part0, Elapse 1500, StreamMessage hi_part1] initial_state =
       Inr (hi_delivered\<lparr>timeouts := [(3500, ''m1'', Some 2)]\<rparr>)"
proof -
  have fresh: "elapse 1500 (initial_state\<lparr>messageCache := (messageCache initial_state)(''m1'' \<mapsto> [parseChunk hi_part0]),
            timeouts := [(5000, ''m1'', Some 2)]\<rparr>) =
        initial_state\<lparr>messageCache := (messageCache initial_state)(''m1'' \<mapsto> [parseChunk hi_part0]),
            timeouts := [(3500, ''m1'', Some 2)]\<rparr>"
    by (simp add: elapse_def isDue_def)
  have second: "handleStreamMessage decode_ascii parse_hi hi_part1
        (initial_state\<lparr>messageCache := (messageCache initial_state)(''m1'' \<mapsto> [parseChunk hi_part0]),
            timeouts := [(3500, ''m1'', Some 2)]\<rparr>) = Inr (hi_delivered\<lparr>timeouts := [(3500, ''m1'', Some 2)]\<rparr>)"
  proof -
    have "handleStreamMessage decode_ascii parse_hi hi_part1
        (initial_state\<lparr>messageCache := (messageCache initial_state)(''m1'' \<mapsto> [parseChunk hi_part0]),
            timeouts := [(3500, ''m1'', Some 2)]\<rparr>) =
        Inr ((tryDecodeAndDispatch decode_ascii parse_hi (joinContents (sortChunks ([parseChunk hi_part0] @ [parseChunk hi_part1])))
               (initial_state\<lparr>messageCache := (messageCache initial_state)(''m1'' \<mapsto> [parseChunk hi_part0]),
                 timeouts := [(3500, ''m1'', Some 2)]\<rparr>))
             \<lparr>messageCache := (messageCache (initial_state\<lparr>messageCache := (messageCache initial_state)(''m1'' \<mapsto> [parseChunk hi_part0]),
                 timeouts := [(3500, ''m1'', Some 2)]\<rparr>))(message_id (parseChunk hi_part1) := None)\<rparr>)"
      by (rule handle_completing [OF refl]) (simp_all add: hi_chunks)
    moreover have "joinContents (sortChunks ([parseChunk hi_part0] @ [parseChunk hi_part1])) =
        ''eyJ0ZXh0IjoiaGkiLCJpc19maW5hbCI6dHJ1ZX0=''"
      by (simp add: hi_chunks sortChunks_def comesBefore_def compareFn_def joinContents_def)
    ultimately show ?thesis
      by (simp add: hi_decoded hi_delivered_def initial_state_def hi_chunks fun_eq_iff)
  qed
  have delivered: "messageList hi_delivered = [\<lparr>turn_id = 0, uid = 1, text' = js ''hi'', status = 1, timestamp = None\<rparr>]"
    by (simp add: hi_delivered_def)
  show ?thesis
    unfolding delivered by (simp add: hi_first hi_second reuse_states fresh second)
qed

subsection \<open>Exceptions\<close>

lemma decodeAndDispatch_failure_any_state:
  "decodeAndDispatch decode parse b st = Inl e \<Longrightarrow> decodeAndDispatch decode parse b st' = Inl e"
  by (auto simp: decodeAndDispatch_def handleTenMessage_def Let_def
      split: sum.splits option.splits json.splits if_splits)

lemma tryDecodeAndDispatch_failure:
  "decodeAndDispatch decode parse b st = Inl e \<Longrightarrow> tryDecodeAndDispatch decode parse b st' = st'"
  using decodeAndDispatch_failure_any_state [of decode parse b st e st']
  by (simp add: tryDecodeAndDispatch_def)

lemma failed_message_removed:
  assumes "total_parts (parseChunk data) \<noteq> Some (- 1)"
    and "messageCache st (message_id (parseChunk data)) = None
           \<longrightarrow> message_id (parseChunk data) \<notin> set Object_prototype_keys"
    and "Some (int (length (pendingChunks st (message_id (parseChunk data)))) + 1)
           = total_parts (parseChunk data)"
    and "decodeAndDispatch decode parse
           (joinContents (sortChunks (pendingChunks st (message_id (parseChunk data)) @ [parseChunk data])))
           st = Inl e"
  shows "\<exists>st'. handleStreamMessage decode parse data st = Inr st'
           \<and> messageCache st' (message_id (parseChunk data)) = None
           \<and> messageList st' = messageList st
           \<and> currentInProgressMessage st' = currentInProgressMessage st
           \<and> turnIdCounter st' = turnIdCounter st"
proof (cases "messageCache st (message_id (parseChunk data))")
  case None
  let ?c = "parseChunk data"
  have one: "total_parts ?c = Some 1" using assms(3) None by (simp add: pendingChunks_def)
  have own: "message_id ?c \<notin> set Object_prototype_keys" using assms(2) None by simp
  have "handleStreamMessage decode parse data st =
           Inr (tryDecodeAndDispatch decode parse (joinContents [?c])
                  (st\<lparr>timeouts := timeouts st @ [(5000, message_id ?c, Some 1)]\<rparr>))"
    using refl None own one by (rule handle_single)
  moreover have "decodeAndDispatch decode parse (joinContents [?c]) st = Inl e"
    using assms(4) None by (simp add: pendingChunks_def sortChunks_def)
  ultimately show ?thesis
    using None by (simp add: tryDecodeAndDispatch_failure)
next
  case (Some stored)
  let ?c = "parseChunk data"
  have "handleStreamMessage decode parse data st =
           Inr ((tryDecodeAndDispatch decode parse (joinContents (sortChunks (stored @ [?c]))) st)
                  \<lparr>messageCache := (messageCache st)(message_id ?c := None)\<rparr>)"
    using refl Some assms(1) assms(3) by (intro handle_completing) (simp_all add: pendingChunks_def)
  moreover have "decodeAndDispatch decode parse (joinContents (sortChunks (stored @ [?c]))) st = Inl e"
    using assms(4) Some by (simp add: pendingChunks_def)
  ultimately show ?thesis
    by (simp add: tryDecodeAndDispatch_failure)
qed

lemma bad_chunk:
  "parseChunk ''m1|0|1|!!'' = \<lparr>message_id = ''m1'', part_index = Some 0, total_parts = Some 1, content = Some ''!!''\<rparr>"
  by (simp add: parse_simps)

lemma bad_atob: "atob ''!!'' = Inl InvalidCharacterError"
  by (simp add: atob_def strip_padding_def isAsciiWhitespace_def base64_value_def)

text \<open>
  Claim C10.  For every text of a stream message the handler returns: no exception
  reaches the caller.  When a chunk completes its message and decoding, parsing or
  dispatching throws, the handler still returns, the entry of the message is gone
  from the cache, and the message list, the in-progress slot and the turn counter are
  as before.
\<close>

theorem handler_never_throws:
  "(\<exists>st'. handleStreamMessage decode parse data st = Inr st')
   \<and> (\<forall>e. total_parts (parseChunk data) \<noteq> Some (- 1)
          \<and> (messageCache st (message_id (parseChunk data)) = None
                \<longrightarrow> message_id (parseChunk data) \<notin> set Object_prototype_keys)
          \<and> Some (int (length (pendingChunks st (message_id (parseChunk data)))) + 1)
                = total_parts (parseChunk data)
          \<and> decodeAndDispatch decode parse
                (joinContents (sortChunks (pendingChunks st (message_id (parseChunk data)) @ [parseChunk data])))
                st = Inl e
        \<longrightarrow> (\<exists>st'. handleStreamMessage decode parse data st = Inr st'
               \<and> messageCache st' (message_id (parseChunk data)) = None
               \<and> messageList st' = messageList st
               \<and> currentInProgressMessage st' = currentInProgressMessage st
               \<and> turnIdCounter st' = turnIdCounter st))"
proof (intro conjI allI impI)
  show "\<exists>st'. handleStreamMessage decode parse data st = Inr st'"
    by (rule handleStreamMessage_returns)
next
  fix e
  assume h: "total_parts (parseChunk data) \<noteq> Some (- 1)
          \<and> (messageCache st (message_id (parseChunk data)) = None
                \<longrightarrow> message_id (parseChunk data) \<notin> set Object_prototype_keys)
          \<and> Some (int (length (pendingChunks st (message_id (parseChunk data)))) + 1)
                = total_parts (parseChunk data)
          \<and> decodeAndDispatch decode parse
                (joinContents (sortChunks (pendingChunks st (message_id (parseChunk data)) @ [parseChunk data])))
                st = Inl e"
  show "\<exists>st'. handleStreamMessage decode parse data st = Inr st'
               \<and> messageCache st' (message_id (parseChunk data)) = None
               \<and> messageList st' = messageList st
               \<and> currentInProgressMessage st' = currentInProgressMessage st
               \<and> turnIdCounter st' = turnIdCounter st"
    by (rule failed_message_removed [OF conjunct1 [OF h] conjunct1 [OF conjunct2 [OF h]]
          conjunct1 [OF conjunct2 [OF conjunct2 [OF h]]] conjunct2 [OF conjunct2 [OF conjunct2 [OF h]]]])
qed

theorem handler_never_throws_witness:
  "\<exists>st'. handleStreamMessage decode_ascii parse_hi ''m1|0|1|!!'' initial_state = Inr st'
       \<and> messageCache st' ''m1'' = None \<and> messageList st' = [] \<and> turnIdCounter st' = 0"
proof -
  have a: "total_parts (parseChunk ''m1|0|1|!!'') \<noteq> Some (- 1)
          \<and> (messageCache initial_state (message_id (parseChunk ''m1|0|1|!!'')) = None
                \<longrightarrow> message_id (parseChunk ''m1|0|1|!!'') \<notin> set Object_prototype_keys)
          \<and> Some (int (length (pendingChunks initial_state (message_id (parseChunk ''m1|0|1|!!'')))) + 1)
                = total_parts (parseChunk ''m1|0|1|!!'')
          \<and> decodeAndDispatch decode_ascii parse_hi
                (joinContents (sortChunks (pendingChunks initial_state (message_id (parseChunk ''m1|0|1|!!'')) @ [parseChunk ''m1|0|1|!!''])))
                initial_state = Inl InvalidCharacterError"
    by (simp add: bad_chunk m1_not_inherited pendingChunks_def initial_state_def sortChunks_def
        joinContents_def decodeAndDispatch_def base64ToUtf8_def bad_atob)
  have id: "message_id (parseChunk ''m1|0|1|!!'') = ''m1''" by (simp add: bad_chunk)
  have init: "messageList initial_state = []" "turnIdCounter initial_state = 0"
    by (simp_all add: initial_state_def)
  have "\<exists>st'. handleStreamMessage decode_ascii parse_hi ''m1|0|1|!!'' initial_state = Inr st'
               \<and> messageCache st' (message_id (parseChunk ''m1|0|1|!!'')) = None
               \<and> messageList st' = messageList initial_state
               \<and> currentInProgressMessage st' = currentInProgressMessage initial_state
               \<and> turnIdCounter st' = turnIdCounter initial_state"
    by (rule mp [OF spec [OF conjunct2
          [OF handler_never_throws [of decode_ascii parse_hi "''m1|0|1|!!''" initial_state]]] a])
  then show ?thesis unfolding id init by (elim exE conjE) (intro exI conjI, assumption+)
qed

subsection \<open>Message ids that name an inherited property\<close>

lemma constructor_inherited: "''constructor'' \<in> set Object_prototype_keys"
  by (simp add: Object_prototype_keys_def)

text \<open>
  Claim C1, at a complete chunk set of one chunk whose \<^verbatim>\<open>message_id\<close> is
  \<^verbatim>\<open>constructor\<close>.  The cache is an object literal, so the lookup finds
  \<^verbatim>\<open>Object.prototype.constructor\<close>: no array is created, \<^verbatim>\<open>push\<close> is not a
  function, and the outer \<^verbatim>\<open>catch\<close> ends the call.  Nothing is reassembled, for any
  decoder and parser, while the same chunk under the id \<^verbatim>\<open>m1\<close> is dispatched.  For
  every other id, lemma \<open>complete_set_order_independent\<close> gives the order independence.
\<close>

theorem inherited_message_id_never_completes:
  "handleStreamMessage decode parse ''constructor|0|1|eyJ0ZXh0IjoiaGkiLCJpc19maW5hbCI6dHJ1ZX0='' initial_state
     = Inr initial_state
   \<and> handleStreamMessage decode_ascii parse_hi ''m1|0|1|eyJ0ZXh0IjoiaGkiLCJpc19maW5hbCI6dHJ1ZX0='' initial_state
     = Inr (initial_state\<lparr>timeouts := [(5000, ''m1'', Some 1)], turnIdCounter := 1,
              messageList := [\<lparr>turn_id = 0, uid = 1, text' = js ''hi'', status = 1, timestamp = None\<rparr>]\<rparr>)"
proof -
  have "handleStreamMessage decode parse ''constructor|0|1|eyJ0ZXh0IjoiaGkiLCJpc19maW5hbCI6dHJ1ZX0='' initial_state
     = Inr initial_state"
    by (rule handleStreamMessage_inherited) (simp_all add: hi_chunks constructor_inherited initial_state_def)
  moreover have "handleStreamMessage decode_ascii parse_hi ''m1|0|1|eyJ0ZXh0IjoiaGkiLCJpc19maW5hbCI6dHJ1ZX0='' initial_state
     = Inr (initial_state\<lparr>timeouts := [(5000, ''m1'', Some 1)], turnIdCounter := 1,
              messageList := [\<lparr>turn_id = 0, uid = 1, text' = js ''hi'', status = 1, timestamp = None\<rparr>]\<rparr>)"
    by (subst handle_single [OF hi_chunks(3)])
       (simp_all add: m1_not_inherited initial_state_def joinContents_def hi_decoded)
  ultimately show ?thesis by simp
qed

section \<open>Properties of the voice activity check\<close>

lemma window_last: "window v st \<noteq> [] \<and> last (window v st) = v"
  by (cases "volumes st") (auto simp: window_def Let_def)

lemma window_mem: "v \<in> set (window v st)"
  using window_last [of v st] last_in_set by metis

lemma window_prev:
  assumes "volumes st \<noteq> []"
  shows "last (volumes st) \<in> set (window v st)" and "2 \<le> length (window v st)"
proof -
  obtain vs u where vs: "volumes st = vs @ [u]" using assms by (metis rev_exhaust)
  show "last (volumes st) \<in> set (window v st)"
    by (cases vs) (auto simp: window_def Let_def vs)
  show "2 \<le> length (window v st)"
    by (cases vs) (auto simp: window_def Let_def vs)
qed

lemma window_length: "length (volumes st) \<le> 3 \<Longrightarrow> length (window v st) \<le> 3"
  by (cases "volumes st") (auto simp: window_def Let_def)

lemma stays_speaking:
  assumes "isAgentSpeaking st" and "\<exists>u \<in> set (window v st). u \<noteq> 0"
  shows "volumeCheck v st = st\<lparr>volumes := window v st\<rparr>"
  using assms by (auto simp: volumeCheck_def intervalCallback_def Let_def isAllZero_def list_all_iff)

lemma stays_listening:
  assumes "\<not> isAgentSpeaking st" and "\<not> hasSound (window v st)"
  shows "volumeCheck v st = st\<lparr>volumes := window v st\<rparr>"
  using assms by (auto simp: volumeCheck_def intervalCallback_def Let_def)

lemma goes_listening:
  assumes "isAgentSpeaking st" and "isAllZero (window v st)"
  shows "volumeCheck v st = \<lparr>volumes = [], isAgentSpeaking = False\<rparr>"
  using assms by (simp add: volumeCheck_def intervalCallback_def Let_def)

lemma goes_speaking:
  assumes "\<not> isAgentSpeaking st" and "hasSound (window v st)"
  shows "volumeCheck v st = \<lparr>volumes = [], isAgentSpeaking = True\<rparr>"
  using assms by (simp add: volumeCheck_def intervalCallback_def Let_def)

lemma volumeChecks_simps:
  "volumeChecks [] st = st"
  "volumeChecks (v # vs) st = volumeChecks vs (volumeCheck v st)"
  by (simp_all add: volumeChecks_def)

lemma lone_zero_keeps_speaking:
  assumes "isAgentSpeaking st" and "x \<noteq> 0" and "y \<noteq> 0"
  shows "isAgentSpeaking (volumeChecks [x] st)
       \<and> isAgentSpeaking (volumeChecks [x, 0] st)
       \<and> isAgentSpeaking (volumeChecks [x, 0, y] st)"
proof -
  define s1 where "s1 = st\<lparr>volumes := window x st\<rparr>"
  define s2 where "s2 = s1\<lparr>volumes := window 0 s1\<rparr>"
  define s3 where "s3 = s2\<lparr>volumes := window y s2\<rparr>"
  have speaking: "isAgentSpeaking s1" "isAgentSpeaking s2" "isAgentSpeaking s3"
    using assms(1) by (simp_all add: s1_def s2_def s3_def)
  have 1: "volumeCheck x st = s1"
    unfolding s1_def using assms(1,2) window_mem [of x st] by (intro stays_speaking) auto
  have "last (volumes s1) = x" "volumes s1 \<noteq> []"
    using window_last [of x st] by (simp_all add: s1_def)
  then have "x \<in> set (window 0 s1)" using window_prev(1) [of s1 0] by simp
  then have 2: "volumeCheck 0 s1 = s2"
    unfolding s2_def using speaking(1) assms(2) by (intro stays_speaking) auto
  have 3: "volumeCheck y s2 = s3"
    unfolding s3_def using speaking(2) assms(3) window_mem [of y s2] by (intro stays_speaking) auto
  show ?thesis
    using speaking by (simp add: volumeChecks_simps 1 2 3)
qed

lemma lone_sound_goes_speaking:
  assumes "\<not> isAgentSpeaking st" and "0 < x"
  shows "volumes st \<noteq> [] \<longrightarrow> isAgentSpeaking (volumeCheck x st)"
    and "volumes st = [] \<longrightarrow> \<not> isAgentSpeaking (volumeCheck x st) \<and> isAgentSpeaking (volumeChecks [x, 0] st)"
proof -
  show "volumes st \<noteq> [] \<longrightarrow> isAgentSpeaking (volumeCheck x st)"
  proof
    assume "volumes st \<noteq> []"
    then have "hasSound (window x st)"
      using window_prev(2) [of st x] window_mem [of x st] assms(2)
      by (auto simp: hasSound_def list_ex_iff)
    then show "isAgentSpeaking (volumeCheck x st)"
      using assms(1) by (simp add: goes_speaking)
  qed
  show "volumes st = [] \<longrightarrow> \<not> isAgentSpeaking (volumeCheck x st) \<and> isAgentSpeaking (volumeChecks [x, 0] st)"
    using assms by (simp add: volumeChecks_simps volumeCheck_def intervalCallback_def window_def isAllZero_def hasSound_def Let_def)
qed

lemma short_list_cases:
  assumes "length (xs :: 'a list) \<le> 3"
  obtains "xs = []" | a where "xs = [a]" | a b where "xs = [a, b]" | a b c where "xs = [a, b, c]"
proof (cases xs)
  case Nil then show ?thesis using that by simp
next
  case (Cons a ys)
  note outer = this
  show ?thesis
  proof (cases ys)
    case Nil then show ?thesis using that outer by simp
  next
    case (Cons b zs)
    note mid = this
    show ?thesis
    proof (cases zs)
      case Nil then show ?thesis using that outer mid by simp
    next
      case (Cons c ws)
      then have "ws = []" using assms outer mid by simp
      then show ?thesis using that outer mid Cons by simp
    qed
  qed
qed

lemma silence_goes_listening:
  assumes "isAgentSpeaking st" and "length (volumes st) \<le> 3"
  shows "(\<forall>u \<in> set (volumes st). u = 0) \<and> length (volumes st) \<le> 1
           \<longrightarrow> \<not> isAgentSpeaking (volumeChecks [0, 0] st)"
    and "\<not> isAgentSpeaking (volumeChecks [0, 0, 0] st)"
proof -
  show "(\<forall>u \<in> set (volumes st). u = 0) \<and> length (volumes st) \<le> 1
           \<longrightarrow> \<not> isAgentSpeaking (volumeChecks [0, 0] st)"
    using assms(2,1)
    by (cases rule: short_list_cases)
       (simp_all add: volumeChecks_simps volumeCheck_def intervalCallback_def window_def isAllZero_def hasSound_def Let_def)
  show "\<not> isAgentSpeaking (volumeChecks [0, 0, 0] st)"
    using assms(2,1)
    by (cases rule: short_list_cases)
       (simp_all add: volumeChecks_simps volumeCheck_def intervalCallback_def window_def isAllZero_def hasSound_def Let_def)
qed

text \<open>
  Claim C2, as the code has it.  \<open>sp\<close> is a state in which the agent is speaking,
  \<open>li\<close> one in which it is listening, \<open>x\<close> and \<open>y\<close> are volume levels above zero.
  \<^item> A single zero between two nonzero samples never ends speaking.
  \<^item> A single sample above zero does start speaking: at once when the window already
    holds a sample, whatever that sample is, and otherwise with the next sample.
  \<^item> Whenever the window after the push holds at least two samples that are all zero
    (that include one above zero), speaking ends (starts).  Two zeros in a row end
    speaking when the window held no nonzero sample, three zeros in a row always do.
\<close>

theorem hysteresis:
  assumes "isAgentSpeaking sp" and "length (volumes sp) \<le> 3" and "\<not> isAgentSpeaking li"
    and "0 < x" and "0 < y"
  shows "isAgentSpeaking (volumeChecks [x] sp)
       \<and> isAgentSpeaking (volumeChecks [x, 0] sp)
       \<and> isAgentSpeaking (volumeChecks [x, 0, y] sp)
       \<and> (volumes li \<noteq> [] \<longrightarrow> isAgentSpeaking (volumeCheck x li))
       \<and> (volumes li = [] \<longrightarrow>
             \<not> isAgentSpeaking (volumeCheck x li) \<and> isAgentSpeaking (volumeChecks [x, 0] li))
       \<and> (isAllZero (window v sp) \<longrightarrow> \<not> isAgentSpeaking (volumeCheck v sp))
       \<and> (hasSound (window v li) \<longrightarrow> isAgentSpeaking (volumeCheck v li))
       \<and> ((\<forall>u \<in> set (volumes sp). u = 0) \<and> length (volumes sp) \<le> 1
             \<longrightarrow> \<not> isAgentSpeaking (volumeChecks [0, 0] sp))
       \<and> \<not> isAgentSpeaking (volumeChecks [0, 0, 0] sp)"
proof -
  have "x \<noteq> 0" "y \<noteq> 0" using assms(4,5) by simp_all
  then have "isAgentSpeaking (volumeChecks [x] sp)
       \<and> isAgentSpeaking (volumeChecks [x, 0] sp)
       \<and> isAgentSpeaking (volumeChecks [x, 0, y] sp)"
    using assms(1) by (intro lone_zero_keeps_speaking)
  moreover have "isAllZero (window v sp) \<longrightarrow> \<not> isAgentSpeaking (volumeCheck v sp)"
    using assms(1) by (simp add: goes_listening)
  moreover have "hasSound (window v li) \<longrightarrow> isAgentSpeaking (volumeCheck v li)"
    using assms(3) by (simp add: goes_speaking)
  ultimately show ?thesis
    using lone_sound_goes_speaking [OF assms(3,4)] silence_goes_listening [OF assms(1,2)]
    by blast
qed

theorem hysteresis_witness:
  "isAgentSpeaking (volumeChecks [1 / 4, 0, 1 / 2] \<lparr>volumes = [0], isAgentSpeaking = True\<rparr>)
   \<and> isAgentSpeaking (volumeCheck (1 / 4) \<lparr>volumes = [0, 0], isAgentSpeaking = False\<rparr>)
   \<and> \<not> isAgentSpeaking (volumeChecks [0, 0] \<lparr>volumes = [0], isAgentSpeaking = True\<rparr>)
   \<and> \<not> isAgentSpeaking (volumeCheck (1 / 4) listening)
   \<and> isAgentSpeaking (volumeChecks [1 / 4, 0] listening)"
proof -
  have a: "isAgentSpeaking \<lparr>volumes = [0], isAgentSpeaking = True\<rparr>"
    "length (volumes \<lparr>volumes = [0::real], isAgentSpeaking = True\<rparr>) \<le> 3"
    "\<not> isAgentSpeaking \<lparr>volumes = [0, 0], isAgentSpeaking = False\<rparr>"
    "\<not> isAgentSpeaking listening"
    "(0::real) < 1 / 4" "(0::real) < 1 / 2"
    by (simp_all add: listening_def)
  have b: "volumes \<lparr>volumes = [0::real, 0], isAgentSpeaking = False\<rparr> \<noteq> []"
    "volumes listening = []"
    "(\<forall>u \<in> set (volumes \<lparr>volumes = [0::real], isAgentSpeaking = True\<rparr>). u = 0)
       \<and> length (volumes \<lparr>volumes = [0::real], isAgentSpeaking = True\<rparr>) \<le> 1"
    by (simp_all add: listening_def)
  show ?thesis
    using hysteresis [OF a(1,2,3,5,6)] hysteresis [OF a(1,2,4,5,6)] b by blast
qed

text \<open>While listening, after two zeros a single sample of one half starts speaking,
  and the zero after it does not end it.\<close>

theorem lone_sound_flips_to_speaking:
  "\<not> isAgentSpeaking (volumeChecks [0, 0] listening)
   \<and> isAgentSpeaking (volumeChecks [0, 0, 1 / 2] listening)
   \<and> isAgentSpeaking (volumeChecks [0, 0, 1 / 2, 0] listening)"
  by (simp add: volumeChecks_simps volumeCheck_def intervalCallback_def window_def isAllZero_def hasSound_def
      listening_def Let_def)

section \<open>Properties of the audio visualization\<close>

lemma rawVolume_range:
  assumes "threshold opts < 1"
  shows "0 \<le> rawVolume opts dataArray \<and> rawVolume opts dataArray \<le> 1"
proof -
  define r where "r = min 1 ((averageVolume dataArray / 255) * amplification opts)"
  have r: "r \<le> 1" by (simp add: r_def)
  have raw: "rawVolume opts dataArray =
      (if r < threshold opts then 0 else (r - threshold opts) / (1 - threshold opts))"
    by (simp add: rawVolume_def r_def Let_def)
  show ?thesis
  proof (cases "r < threshold opts")
    case True
    then show ?thesis by (simp add: raw)
  next
    case False
    then have "0 \<le> r - threshold opts" "r - threshold opts \<le> 1 - threshold opts" "0 < 1 - threshold opts"
      using r assms by simp_all
    then show ?thesis using False by (simp add: raw)
  qed
qed

lemma smoothedVolume_range:
  assumes "threshold opts < 1" and "0 \<le> volumeDecay opts" and "volumeDecay opts \<le> 1"
    and "0 \<le> smoothedVolumeRef st" and "smoothedVolumeRef st \<le> 1"
  shows "0 \<le> smoothedVolume opts dataArray st \<and> smoothedVolume opts dataArray st \<le> 1"
proof -
  have "smoothedVolumeRef st * volumeDecay opts \<le> 1 * 1"
    using assms(2-5) by (intro mult_mono) simp_all
  moreover have "0 \<le> smoothedVolumeRef st * volumeDecay opts"
    using assms(2,4) by simp
  ultimately show ?thesis
    using rawVolume_range [OF assms(1), of dataArray] by (simp add: smoothedVolume_def Let_def)
qed

lemma targetLitCount_range:
  assumes "threshold opts < 1" and "0 \<le> volumeDecay opts" and "volumeDecay opts \<le> 1"
    and "0 \<le> smoothedVolumeRef st" and "smoothedVolumeRef st \<le> 1"
  shows "0 \<le> targetLitCount opts dataArray st \<and> targetLitCount opts dataArray st \<le> real (barCount opts)"
proof -
  have s: "0 \<le> smoothedVolume opts dataArray st" "smoothedVolume opts dataArray st \<le> 1"
    using smoothedVolume_range [OF assms] by simp_all
  have "smoothedVolume opts dataArray st * real (barCount opts) \<le> 1 * real (barCount opts)"
    using s by (intro mult_right_mono) simp_all
  then show ?thesis using s by (simp add: targetLitCount_def)
qed

lemma newLitCount_attack:
  assumes "0 \<le> attackRate opts" and "attackRate opts \<le> 1"
    and "currentLitCountRef st < targetLitCount opts dataArray st"
  shows "currentLitCountRef st \<le> newLitCount opts dataArray st"
    and "newLitCount opts dataArray st \<le> targetLitCount opts dataArray st"
proof -
  let ?gap = "targetLitCount opts dataArray st - currentLitCountRef st"
  have gap: "0 < ?gap" using assms(3) by simp
  have new: "newLitCount opts dataArray st = currentLitCountRef st + ?gap * attackRate opts"
    using assms(3) by (simp add: newLitCount_def Let_def)
  have "0 \<le> ?gap * attackRate opts" using gap assms(1) by simp
  then show "currentLitCountRef st \<le> newLitCount opts dataArray st" by (simp add: new)
  have "?gap * attackRate opts \<le> ?gap * 1"
    using gap assms(2) by (intro mult_left_mono) simp_all
  then show "newLitCount opts dataArray st \<le> targetLitCount opts dataArray st" by (simp add: new)
qed

lemma newLitCount_decay:
  assumes "0 \<le> volumeDecay opts" and "volumeDecay opts \<le> 1"
    and "targetLitCount opts dataArray st \<le> currentLitCountRef st" and "0 \<le> currentLitCountRef st"
  shows "0 \<le> newLitCount opts dataArray st"
    and "newLitCount opts dataArray st \<le> currentLitCountRef st"
proof -
  have new: "newLitCount opts dataArray st = currentLitCountRef st * volumeDecay opts"
    using assms(3) by (simp add: newLitCount_def Let_def)
  show "0 \<le> newLitCount opts dataArray st" using assms(1,4) by (simp add: new)
  have "currentLitCountRef st * volumeDecay opts \<le> currentLitCountRef st * 1"
    using assms(2,4) by (intro mult_left_mono) simp_all
  then show "newLitCount opts dataArray st \<le> currentLitCountRef st" by (simp add: new)
qed

lemma updateData_refs:
  "smoothedVolumeRef (updateData opts now dataArray st) = smoothedVolume opts dataArray st"
  "currentLitCountRef (updateData opts now dataArray st) = newLitCount opts dataArray st"
  by (simp_all add: updateData_def Let_def)

lemma in_range_updateData:
  assumes "threshold opts < 1" and "0 \<le> volumeDecay opts" and "volumeDecay opts \<le> 1"
    and "0 \<le> attackRate opts" and "attackRate opts \<le> 1" and "in_range opts st"
  shows "in_range opts (updateData opts now dataArray st)"
proof -
  have st: "0 \<le> smoothedVolumeRef st" "smoothedVolumeRef st \<le> 1"
    "0 \<le> currentLitCountRef st" "currentLitCountRef st \<le> real (barCount opts)"
    using assms(6) by (simp_all add: in_range_def)
  have s: "0 \<le> smoothedVolume opts dataArray st \<and> smoothedVolume opts dataArray st \<le> 1"
    using assms(1-3) st(1,2) by (rule smoothedVolume_range)
  have t: "targetLitCount opts dataArray st \<le> real (barCount opts)"
    using targetLitCount_range [OF assms(1-3) st(1,2), of dataArray] by simp
  have "0 \<le> newLitCount opts dataArray st \<and> newLitCount opts dataArray st \<le> real (barCount opts)"
  proof (cases "currentLitCountRef st < targetLitCount opts dataArray st")
    case True
    then show ?thesis
      using newLitCount_attack [OF assms(4,5) True] st(3) t by simp
  next
    case False
    then have "targetLitCount opts dataArray st \<le> currentLitCountRef st" by simp
    then show ?thesis
      using newLitCount_decay [OF assms(2,3) _ st(3), of dataArray] st(4) by simp
  qed
  then show ?thesis using s by (simp add: in_range_def updateData_refs)
qed

lemma in_range_initial: "in_range opts (initial_visualization opts)"
  by (simp add: in_range_def initial_visualization_def)

lemma in_range_updates:
  assumes "threshold opts < 1" and "0 \<le> volumeDecay opts" and "volumeDecay opts \<le> 1"
    and "0 \<le> attackRate opts" and "attackRate opts \<le> 1" and "in_range opts st"
  shows "in_range opts (updates opts frames st)"
  using assms(6)
proof (induction frames arbitrary: st)
  case Nil
  then show ?case by (simp add: updates_def)
next
  case (Cons f frames)
  have "in_range opts (updateData opts (fst f) (snd f) st)"
    using assms(1-5) Cons.prems by (rule in_range_updateData)
  then have "in_range opts (updates opts frames (updateData opts (fst f) (snd f) st))"
    by (rule Cons.IH)
  then show ?case by (simp add: updates_def)
qed

lemma averageVolume_replicate:
  "0 < n \<Longrightarrow> averageVolume (replicate n b) = real (unat b)"
proof -
  have "foldl (\<lambda>sum b. sum + real (unat b)) a (replicate n b) = a + real n * real (unat b)" for a
    by (induction n arbitrary: a) (simp_all add: algebra_simps)
  then show "0 < n \<Longrightarrow> averageVolume (replicate n b) = real (unat b)"
    by (simp add: averageVolume_def)
qed

lemma loud_then_silent:
  "updateData (defaultOptions\<lparr>volumeDecay := 1 / 2, attackRate := 1 / 2\<rparr>) 0 (replicate 128 255)
     (initial_visualization (defaultOptions\<lparr>volumeDecay := 1 / 2, attackRate := 1 / 2\<rparr>))
   = \<lparr>smoothedVolumeRef = 1, currentLitCountRef = 12, lastUpdateRef = 0,
       frequencyData = replicate 24 0\<rparr>"
  by (simp add: updateData_def newLitCount_def targetLitCount_def smoothedVolume_def rawVolume_def
      averageVolume_replicate defaultOptions_def initial_visualization_def Let_def Math_round_def)

lemma default_first_loud:
  "updates defaultOptions [(0, replicate 128 255)] (initial_visualization defaultOptions)
   = \<lparr>smoothedVolumeRef = 1, currentLitCountRef = 36 / 5, lastUpdateRef = 0,
       frequencyData = replicate 24 0\<rparr>"
  by (simp add: updates_def updateData_def newLitCount_def targetLitCount_def smoothedVolume_def
      rawVolume_def averageVolume_replicate defaultOptions_def initial_visualization_def Let_def)

lemma default_targets:
  "targetLitCount defaultOptions (replicate 128 255)
     \<lparr>smoothedVolumeRef = 1, currentLitCountRef = 36 / 5, lastUpdateRef = 0,
       frequencyData = replicate 24 0\<rparr> = 114 / 5"
  "targetLitCount defaultOptions (replicate 128 0) (initial_visualization defaultOptions) = 0"
  by (simp_all add: targetLitCount_def smoothedVolume_def rawVolume_def averageVolume_replicate
      defaultOptions_def initial_visualization_def Let_def)

text \<open>
  Claim C6, as the code has it.  The options are in the ranges their documentation
  gives (decay and attack rate between 0 and 1, threshold below 1), and \<open>st\<close> is any
  state reached from the initial one.  Then the lit count of \<open>st\<close> is between 0 and
  \<^verbatim>\<open>barCount\<close>; a tick whose target is above the current lit count does not lower
  it and keeps it below \<^verbatim>\<open>barCount\<close>; a tick whose target is at or below the
  current lit count does not raise it and keeps it at or above 0.
\<close>

theorem lit_count_monotone_and_bounded:
  assumes "threshold opts < 1" and "0 \<le> volumeDecay opts" and "volumeDecay opts \<le> 1"
    and "0 \<le> attackRate opts" and "attackRate opts \<le> 1"
    and "st = updates opts frames (initial_visualization opts)"
  shows "0 \<le> currentLitCountRef st \<and> currentLitCountRef st \<le> real (barCount opts)
       \<and> (currentLitCountRef st < targetLitCount opts dataArray st \<longrightarrow>
             currentLitCountRef st \<le> currentLitCountRef (updateData opts now dataArray st)
             \<and> currentLitCountRef (updateData opts now dataArray st) \<le> real (barCount opts))
       \<and> (targetLitCount opts dataArray st \<le> currentLitCountRef st \<longrightarrow>
             0 \<le> currentLitCountRef (updateData opts now dataArray st)
             \<and> currentLitCountRef (updateData opts now dataArray st) \<le> currentLitCountRef st)"
proof -
  have inv: "in_range opts st"
    unfolding assms(6) using assms(1-5) in_range_initial by (rule in_range_updates)
  then have st: "0 \<le> smoothedVolumeRef st" "smoothedVolumeRef st \<le> 1"
    "0 \<le> currentLitCountRef st" "currentLitCountRef st \<le> real (barCount opts)"
    by (simp_all add: in_range_def)
  have t: "targetLitCount opts dataArray st \<le> real (barCount opts)"
    using targetLitCount_range [OF assms(1-3) st(1,2), of dataArray] by simp
  have attack: "currentLitCountRef st \<le> newLitCount opts dataArray st
                \<and> newLitCount opts dataArray st \<le> real (barCount opts)"
    if "currentLitCountRef st < targetLitCount opts dataArray st"
    using newLitCount_attack [OF assms(4,5) that] t by simp
  have decay: "0 \<le> newLitCount opts dataArray st
                \<and> newLitCount opts dataArray st \<le> currentLitCountRef st"
    if "targetLitCount opts dataArray st \<le> currentLitCountRef st"
    using newLitCount_decay [OF assms(2,3) that st(3)] by simp
  show ?thesis
    using st(3,4) attack decay by (simp add: updateData_refs)
qed

theorem lit_count_monotone_and_bounded_witness:
  "currentLitCountRef (updates defaultOptions [(0, replicate 128 255)] (initial_visualization defaultOptions))
     \<le> currentLitCountRef (updateData defaultOptions 33 (replicate 128 255)
          (updates defaultOptions [(0, replicate 128 255)] (initial_visualization defaultOptions)))
   \<and> currentLitCountRef (updateData defaultOptions 33 (replicate 128 255)
          (updates defaultOptions [(0, replicate 128 255)] (initial_visualization defaultOptions)))
     \<le> real (barCount defaultOptions)
   \<and> 0 \<le> currentLitCountRef (updateData defaultOptions 0 (replicate 128 0)
          (updates defaultOptions [] (initial_visualization defaultOptions)))
   \<and> currentLitCountRef (updateData defaultOptions 0 (replicate 128 0)
          (updates defaultOptions [] (initial_visualization defaultOptions)))
     \<le> currentLitCountRef (updates defaultOptions [] (initial_visualization defaultOptions))"
proof -
  have opts: "threshold defaultOptions < 1" "0 \<le> volumeDecay defaultOptions"
    "volumeDecay defaultOptions \<le> 1" "0 \<le> attackRate defaultOptions" "attackRate defaultOptions \<le> 1"
    by (simp_all add: defaultOptions_def)
  have attack: "currentLitCountRef (updates defaultOptions [(0, replicate 128 255)] (initial_visualization defaultOptions))
      < targetLitCount defaultOptions (replicate 128 255)
          (updates defaultOptions [(0, replicate 128 255)] (initial_visualization defaultOptions))"
    by (simp add: default_first_loud default_targets)
  have decay: "targetLitCount defaultOptions (replicate 128 0)
        (updates defaultOptions [] (initial_visualization defaultOptions))
      \<le> currentLitCountRef (updates defaultOptions [] (initial_visualization defaultOptions))"
  proof -
    have "currentLitCountRef (initial_visualization defaultOptions) = 0"
      by (simp add: initial_visualization_def)
    then show ?thesis by (simp add: updates_def default_targets)
  qed
  show ?thesis
    using lit_count_monotone_and_bounded [OF opts refl,
        of "[(0, replicate 128 255)]" "replicate 128 255" 33]
      lit_count_monotone_and_bounded [OF opts refl, of "[]" "replicate 128 0" 0]
      attack decay
    by blast
qed

text \<open>With decay and attack rate one half, a loud frame takes the lit count to 12.
  For the silent frame after it the target is 12 as well, the test
  \<^verbatim>\<open>targetLitCount > currentLitCount\<close> fails, and the lit count decays to 6.\<close>

theorem equal_target_decays:
  "currentLitCountRef
     (updates (defaultOptions\<lparr>volumeDecay := 1 / 2, attackRate := 1 / 2\<rparr>) [(0, replicate 128 255)]
        (initial_visualization (defaultOptions\<lparr>volumeDecay := 1 / 2, attackRate := 1 / 2\<rparr>))) = 12
   \<and> targetLitCount (defaultOptions\<lparr>volumeDecay := 1 / 2, attackRate := 1 / 2\<rparr>) (replicate 128 0)
       (updates (defaultOptions\<lparr>volumeDecay := 1 / 2, attackRate := 1 / 2\<rparr>) [(0, replicate 128 255)]
          (initial_visualization (defaultOptions\<lparr>volumeDecay := 1 / 2, attackRate := 1 / 2\<rparr>))) = 12
   \<and> currentLitCountRef
       (updates (defaultOptions\<lparr>volumeDecay := 1 / 2, attackRate := 1 / 2\<rparr>)
          [(0, replicate 128 255), (33, replicate 128 0)]
          (initial_visualization (defaultOptions\<lparr>volumeDecay := 1 / 2, attackRate := 1 / 2\<rparr>))) = 6"
  by (simp add: updates_def loud_then_silent)
     (simp add: updateData_def newLitCount_def targetLitCount_def smoothedVolume_def rawVolume_def
      averageVolume_replicate defaultOptions_def Let_def)

end
